theory Spec2Isabelle
  imports Complex_Main
begin

section \<open>Text primitives\<close>

text \<open>
  Python \<open>str\<close> values are modelled as \<open>string\<close>. The character tests below are the
  ASCII part of Python's tables: the scraped pages are read as ASCII text, and a byte
  above 127 is neither a digit, a letter, white space nor a word character, and is left
  alone by \<open>lower\<close> and \<open>upper\<close>. Python floats that come from decimal text
  (prices, grams, percentages) are modelled by the rational number the text denotes.
\<close>

definition is_digit :: "char \<Rightarrow> bool" where
  "is_digit c = (c \<in> set ''0123456789'')"

definition upper_letters :: string where
  "upper_letters = ''ABCDEFGHIJKLMNOPQRSTUVWXYZ''"

definition lower_letters :: string where
  "lower_letters = ''abcdefghijklmnopqrstuvwxyz''"

definition is_upper :: "char \<Rightarrow> bool" where
  "is_upper c = (c \<in> set upper_letters)"

definition is_lower :: "char \<Rightarrow> bool" where
  "is_lower c = (c \<in> set lower_letters)"

definition is_space :: "char \<Rightarrow> bool" where
  \<comment> \<open>\<open>str.isspace\<close> and the pattern \<open>\s\<close>: tab, LF, VT, FF, CR, FS, GS, RS, US, space\<close>
  "is_space c =
     (c \<in> set [CHR 0x09, CHR 0x0A, CHR 0x0B, CHR 0x0C, CHR 0x0D,
                CHR 0x1C, CHR 0x1D, CHR 0x1E, CHR 0x1F, CHR '' ''])"

definition is_word :: "char \<Rightarrow> bool" where
  \<comment> \<open>the pattern \<open>\w\<close>: letters, digits and the underscore\<close>
  "is_word c = (is_digit c \<or> is_upper c \<or> is_lower c \<or> c = CHR ''_'')"

definition lower_chr :: "char \<Rightarrow> char" where
  "lower_chr c = (case map_of (zip upper_letters lower_letters) c of Some d \<Rightarrow> d | None \<Rightarrow> c)"

definition upper_chr :: "char \<Rightarrow> char" where
  "upper_chr c = (case map_of (zip lower_letters upper_letters) c of Some d \<Rightarrow> d | None \<Rightarrow> c)"

definition lower :: "string \<Rightarrow> string" where
  "lower s = map lower_chr s"


section \<open>Regular expressions as the module compiles them\<close>

text \<open>
  The patterns of data\_extractors.py are kept as syntax trees and run by a backtracking
  matcher that follows Python's \<open>re\<close>: alternatives are tried left to right, repetition
  and the optional group are greedy, and \<open>search\<close> takes the first success at the
  leftmost start position. Every repetition in the module's patterns is over a
  character class, so repetition is modelled for classes.
\<close>

text \<open>An exception is its class and its message (\<open>str(e)\<close>).\<close>

datatype exc_class = NameError | TypeError | ValueError | AttributeError | IndexError
  | KeyError | PlaywrightError | PlaywrightTimeoutError

datatype error = Exc exc_class string

fun str_exc :: "error \<Rightarrow> string" where
  "str_exc (Exc k msg) = msg"

fun exc_kind :: "error \<Rightarrow> exc_class" where
  "exc_kind (Exc k msg) = k"

datatype cls = Digit | NonDigit | Space

fun in_cls :: "cls \<Rightarrow> char \<Rightarrow> bool" where
  "in_cls Digit c = is_digit c"
| "in_cls NonDigit c = (\<not> is_digit c)"
| "in_cls Space c = is_space c"

datatype rx =
    Eps
  | Lit char
  | Set cls
  | StarC cls
  | PlusC cls
  | Seq rx rx
  | Alt rx rx
  | Opt rx
  | Rep nat rx
  | WordB
  | Group nat rx

text \<open>
  A matcher state is the text already consumed (reversed), the text still ahead and the
  groups captured so far (latest first).
\<close>

type_synonym mstate = "string \<times> string \<times> (nat \<times> string) list"

fun star_runs :: "cls \<Rightarrow> string \<Rightarrow> string \<Rightarrow> (nat \<times> string) list \<Rightarrow> mstate list" where
  "star_runs k l [] g = [(l, [], g)]"
| "star_runs k l (x # xs) g =
     (if in_cls k x then star_runs k (x # l) xs g else []) @ [(l, x # xs, g)]"

definition at_boundary :: "string \<Rightarrow> string \<Rightarrow> bool" where
  \<comment> \<open>\<open>\b\<close>: exactly one side of the position is a word character\<close>
  "at_boundary l r =
     ((case l of [] \<Rightarrow> False | a # _ \<Rightarrow> is_word a) \<noteq> (case r of [] \<Rightarrow> False | b # _ \<Rightarrow> is_word b))"

definition chr_eq :: "bool \<Rightarrow> char \<Rightarrow> char \<Rightarrow> bool" where
  \<comment> \<open>a literal of the pattern against a character of the text; the flag is \<open>re.I\<close>\<close>
  "chr_eq ci p c = (if ci then lower_chr p = lower_chr c else p = c)"

primrec rep_run :: "nat \<Rightarrow> (mstate \<Rightarrow> mstate list) \<Rightarrow> mstate \<Rightarrow> mstate list" where
  "rep_run 0 f s = [s]"
| "rep_run (Suc n) f s = concat (map (rep_run n f) (f s))"

definition capture :: "nat \<Rightarrow> string \<Rightarrow> mstate \<Rightarrow> mstate" where
  "capture n l0 s = (case s of (l, r, g) \<Rightarrow> (l, r, (n, rev (take (length l - length l0) l)) # g))"

fun run :: "bool \<Rightarrow> rx \<Rightarrow> mstate \<Rightarrow> mstate list" where
  "run ci Eps s = [s]"
| "run ci (Lit p) (l, r, g) =
     (case r of [] \<Rightarrow> [] | c # cs \<Rightarrow> if chr_eq ci p c then [(c # l, cs, g)] else [])"
| "run ci (Set k) (l, r, g) =
     (case r of [] \<Rightarrow> [] | c # cs \<Rightarrow> if in_cls k c then [(c # l, cs, g)] else [])"
| "run ci (StarC k) (l, r, g) = star_runs k l r g"
| "run ci (PlusC k) (l, r, g) =
     (case r of [] \<Rightarrow> [] | c # cs \<Rightarrow> if in_cls k c then star_runs k (c # l) cs g else [])"
| "run ci (Seq a b) s = concat (map (run ci b) (run ci a s))"
| "run ci (Alt a b) s = run ci a s @ run ci b s"
| "run ci (Opt a) s = run ci a s @ [s]"
| "run ci (Rep n a) s = rep_run n (run ci a) s"
| "run ci WordB (l, r, g) = (if at_boundary l r then [(l, r, g)] else [])"
| "run ci (Group n a) (l, r, g) = map (capture n l) (run ci a (l, r, g))"

record pattern =
  tree :: rx
  ignorecase :: bool

record match =
  m_start :: nat
  m_end :: nat
  groups :: "(nat \<times> string) list"

definition group :: "match \<Rightarrow> nat \<Rightarrow> string option" where
  "group m n = map_of (groups m) n"

definition first_match :: "pattern \<Rightarrow> string \<Rightarrow> string \<Rightarrow> match option" where
  \<comment> \<open>the preferred match that starts exactly here, if there is one\<close>
  "first_match p l r =
     (case run (ignorecase p) (tree p) (l, r, []) of
        [] \<Rightarrow> None
      | (l', r', g) # _ \<Rightarrow> Some \<lparr>m_start = length l, m_end = length l', groups = g\<rparr>)"

fun search_from :: "pattern \<Rightarrow> string \<Rightarrow> string \<Rightarrow> match option" where
  "search_from p l [] = first_match p l []"
| "search_from p l (c # cs) =
     (case first_match p l (c # cs) of
        Some m \<Rightarrow> Some m
      | None \<Rightarrow> search_from p (c # l) cs)"

definition search :: "pattern \<Rightarrow> string \<Rightarrow> match option" where
  "search p text = search_from p [] text"

function finditer_from :: "pattern \<Rightarrow> string \<Rightarrow> string \<Rightarrow> match list" where
  "finditer_from p l r =
     (case search_from p l r of
        None \<Rightarrow> []
      | Some m \<Rightarrow>
          (let k = m_end m - length l in
           if 0 < k \<and> k \<le> length r
           then m # finditer_from p (rev (take k r) @ l) (drop k r)
           else case r of [] \<Rightarrow> [m] | c # cs \<Rightarrow> m # finditer_from p (c # l) cs))"
  by pat_completeness auto
termination
  by (relation "measure (\<lambda>(p, l, r). length r)") auto

definition finditer :: "pattern \<Rightarrow> string \<Rightarrow> match list" where
  \<comment> \<open>the matches left to right, each scan starting where the last match ended; after an
      empty match the scan moves one character on (no pattern used with \<open>finditer\<close> in
      this module matches the empty string)\<close>
  "finditer p text = finditer_from p [] text"

definition lits :: "string \<Rightarrow> rx" where
  "lits w = foldr (\<lambda>c a. Seq (Lit c) a) w Eps"

definition seqs :: "rx list \<Rightarrow> rx" where
  "seqs ps = foldr Seq ps Eps"

definition alts :: "rx \<Rightarrow> rx list \<Rightarrow> rx" where
  "alts p ps = foldl Alt p ps"

section \<open>Size labels and grams (data\_extractors.py)\<close>

definition SIZE_MAP :: "(string \<times> rat) list" where
  "SIZE_MAP =
     [(''0.5g'', 1 / 2), (''1g'', 1), (''2g'', 2), (''3.5g'', 7 / 2),
      (''7g'', 7), (''10g'', 10), (''14g'', 14), (''28g'', 28)]"

fun grams_from_size :: "string option \<Rightarrow> rat option" where
  "grams_from_size None = None"
| "grams_from_size (Some size_str) =
     (if size_str = [] then None else map_of SIZE_MAP (lower size_str))"

definition SIZE_RE :: pattern where
  \<comment> \<open>\<^verbatim>\<open>\b(0\.5g|1g|2g|3\.5g|7g|10g|14g|28g)\b\<close> with \<open>re.I\<close>\<close>
  "SIZE_RE =
     \<lparr>tree = seqs [WordB,
               Group 1 (alts (lits ''0.5g'')
                  [lits ''1g'', lits ''2g'', lits ''3.5g'', lits ''7g'',
                   lits ''10g'', lits ''14g'', lits ''28g'']),
               WordB],
      ignorecase = True\<rparr>"

definition extract_size_from_text :: "string \<Rightarrow> error + string option" where
  \<comment> \<open>\<open>match.group(1).lower()\<close>: a group that took no part is \<open>None\<close>, which has no \<open>lower\<close>\<close>
  "extract_size_from_text text =
     (if text = [] then Inr None
      else case search SIZE_RE text of
             None \<Rightarrow> Inr None
           | Some m \<Rightarrow> (case group m 1 of
                         None \<Rightarrow> Inl (Exc AttributeError ''NoneType object has no attribute lower'')
                       | Some g \<Rightarrow> Inr (Some (lower g))))"

section \<open>Numbers read from text\<close>

definition digit_val :: "char \<Rightarrow> nat" where
  "digit_val c =
     (case map_of (zip ''0123456789'' [0, 1, 2, 3, 4, 5, 6, 7, 8, 9]) c of
        Some d \<Rightarrow> d | None \<Rightarrow> 0)"

definition nat_of_digits :: "string \<Rightarrow> nat" where
  "nat_of_digits ds = foldl (\<lambda>a c. 10 * a + digit_val c) 0 ds"

text \<open>
  \<open>float(s)\<close> on the two shapes the patterns capture, \<open>digits\<close> and
  \<open>digits.digits\<close>, as the rational the text denotes. Python's \<open>float\<close> accepts
  further shapes (signs, exponents, a leading dot); they are \<open>ValueError\<close> here, and
  the lemmas on the patterns show that no captured group has such a shape.
\<close>

definition py_float :: "string \<Rightarrow> error + rat" where
  "py_float s =
     (let ip = takeWhile is_digit s; rest = dropWhile is_digit s in
      if ip = [] then Inl (Exc ValueError ''could not convert string to float'')
      else case rest of
             [] \<Rightarrow> Inr (of_nat (nat_of_digits ip))
           | c # fp \<Rightarrow>
               if c = CHR ''.'' \<and> fp \<noteq> [] \<and> list_all is_digit fp
               then Inr (of_nat (nat_of_digits ip) + of_nat (nat_of_digits fp) / 10 ^ length fp)
               else Inl (Exc ValueError ''could not convert string to float''))"

section \<open>Potency (data\_extractors.py)\<close>

definition number_rx :: rx where
  \<comment> \<open>\<^verbatim>\<open>[0-9]+(?:\.[0-9]+)?\<close>\<close>
  "number_rx = Seq (PlusC Digit) (Opt (Seq (Lit CHR ''.'') (PlusC Digit)))"

definition THC_SINGLE_RE :: pattern where
  \<comment> \<open>\<^verbatim>\<open>\bTHC\b[^0-9]*([0-9]+(?:\.[0-9]+)?)\s*%\<close> with \<open>re.I\<close>\<close>
  "THC_SINGLE_RE =
     \<lparr>tree = seqs [WordB, lits ''THC'', WordB, StarC NonDigit, Group 1 number_rx,
               StarC Space, Lit CHR ''%''],
      ignorecase = True\<rparr>"

definition THC_RANGE_RE :: pattern where
  \<comment> \<open>\<^verbatim>\<open>\bTHC\b[^0-9]*([0-9]+(?:\.[0-9]+)?)\s*%[^0-9]+([0-9]+(?:\.[0-9]+)?)\s*%\<close> with \<open>re.I\<close>\<close>
  "THC_RANGE_RE =
     \<lparr>tree = seqs [WordB, lits ''THC'', WordB, StarC NonDigit, Group 1 number_rx,
               StarC Space, Lit CHR ''%'', PlusC NonDigit, Group 2 number_rx,
               StarC Space, Lit CHR ''%''],
      ignorecase = True\<rparr>"

definition float_group :: "match \<Rightarrow> nat \<Rightarrow> error + rat" where
  \<comment> \<open>\<open>float(match.group(n))\<close>; \<open>float(None)\<close> is a \<open>TypeError\<close>\<close>
  "float_group m n =
     (case group m n of
        None \<Rightarrow> Inl (Exc TypeError ''float() argument must be a string or a real number'')
      | Some g \<Rightarrow> py_float g)"

definition thc_single :: "string \<Rightarrow> error + rat option" where
  "thc_single text =
     (case search THC_SINGLE_RE text of
        None \<Rightarrow> Inr None
      | Some m \<Rightarrow> (case float_group m 1 of
                    Inr v \<Rightarrow> Inr (Some v)
                  | Inl e \<Rightarrow> if exc_kind e = ValueError then Inr None else Inl e))"

definition extract_thc_from_text :: "string \<Rightarrow> error + rat option" where
  "extract_thc_from_text text =
     (if text = [] then Inr None
      else case search THC_RANGE_RE text of
             None \<Rightarrow> thc_single text
           | Some m \<Rightarrow> (case float_group m 1 of
                         Inr v \<Rightarrow> Inr (Some v)
                       | Inl e \<Rightarrow> if exc_kind e = ValueError then thc_single text else Inl e))"

section \<open>Strain type (data\_extractors.py)\<close>

definition strain_re :: "string \<Rightarrow> pattern" where
  \<comment> \<open>\<^verbatim>\<open>rf"\b{strain_type}\b"\<close> with \<open>re.I\<close>\<close>
  "strain_re strain_type = \<lparr>tree = seqs [WordB, lits strain_type, WordB], ignorecase = True\<rparr>"

fun strain_loop :: "string list \<Rightarrow> string \<Rightarrow> string option" where
  "strain_loop [] text = None"
| "strain_loop (strain_type # rest) text =
     (if search (strain_re strain_type) text \<noteq> None then Some strain_type
      else strain_loop rest text)"

definition extract_strain_type_from_text :: "string \<Rightarrow> string option" where
  "extract_strain_type_from_text text =
     (if text = [] then None else strain_loop [''Indica'', ''Sativa'', ''Hybrid''] text)"


section \<open>Python string helpers\<close>

definition strip :: "string \<Rightarrow> string" where
  "strip s = rev (dropWhile is_space (rev (dropWhile is_space s)))"

definition strip_chr :: "char \<Rightarrow> string \<Rightarrow> string" where
  \<comment> \<open>\<open>s.strip(c)\<close> for a one-character argument\<close>
  "strip_chr c s = rev (dropWhile (\<lambda>x. x = c) (rev (dropWhile (\<lambda>x. x = c) s)))"

fun py_join :: "string \<Rightarrow> string list \<Rightarrow> string" where
  "py_join sep [] = []"
| "py_join sep [x] = x"
| "py_join sep (x # y # ys) = x @ sep @ py_join sep (y # ys)"

definition startswith :: "string \<Rightarrow> string \<Rightarrow> bool" where
  "startswith s pre = (take (length pre) s = pre)"


fun split_once :: "string \<Rightarrow> string \<Rightarrow> (string \<times> string) option" where
  \<comment> \<open>\<open>s.split(sep, 1)\<close> when \<open>sep\<close> occurs: the text before and after its first occurrence\<close>
  "split_once sep [] = (if sep = [] then Some ([], []) else None)"
| "split_once sep (c # cs) =
     (if startswith (c # cs) sep then Some ([], drop (length sep) (c # cs))
      else map_option (\<lambda>(a, b). (c # a, b)) (split_once sep cs))"


definition capitalize :: "string \<Rightarrow> string" where
  "capitalize s = (case s of [] \<Rightarrow> [] | c # cs \<Rightarrow> upper_chr c # lower cs)"


fun py_min :: "rat list \<Rightarrow> rat option" where
  \<comment> \<open>\<open>min(prices) if prices else None\<close>\<close>
  "py_min [] = None"
| "py_min (x # xs) = Some (fold min xs x)"

section \<open>Price (data\_extractors.py)\<close>

definition PRICE_RE :: pattern where
  \<comment> \<open>\<^verbatim>\<open>\$\s*([0-9]+(?:\.[0-9]{2})?)\<close>\<close>
  "PRICE_RE =
     \<lparr>tree = seqs [Lit CHR ''$'', StarC Space,
               Group 1 (Seq (PlusC Digit) (Opt (Seq (Lit CHR ''.'') (Rep 2 (Set Digit)))))],
      ignorecase = False\<rparr>"

fun collect_prices :: "match list \<Rightarrow> error + rat list" where
  \<comment> \<open>the loop over the matches: a \<open>ValueError\<close> of \<open>float\<close> skips the match, any other
      exception leaves the loop\<close>
  "collect_prices [] = Inr []"
| "collect_prices (m # ms) =
     (case float_group m 1 of
        Inr v \<Rightarrow> (case collect_prices ms of Inl e \<Rightarrow> Inl e | Inr vs \<Rightarrow> Inr (v # vs))
      | Inl e \<Rightarrow> if exc_kind e = ValueError then collect_prices ms else Inl e)"

definition price_from_blob :: "string \<Rightarrow> error + rat option" where
  \<comment> \<open>lines 124-136 of \<open>extract_price_from_card\<close>, and the same lines of
      \<open>extract_price_from_pdp\<close>\<close>
  "price_from_blob blob =
     (case collect_prices (finditer PRICE_RE blob) of
        Inl e \<Rightarrow> Inl e
      | Inr prices \<Rightarrow> Inr (py_min prices))"

section \<open>Product cards\<close>

text \<open>
  A card is what the browser answers for one product element: every Playwright call on
  it is an observation that either yields a value or raises. \<open>extract_brand_from_card\<close>
  and \<open>extract_brand_from_pdp\<close> catch every exception and return an optional string, so
  their answers are taken as observations as they are.
\<close>

record card =
  name_link_count :: "error + nat"
  name_link_text :: "error + string option"
  name_link_href :: "error + string option"
  inner_text :: "error + string"
  price_elems :: "error + (error + string option) list"
  strain_elem_count :: "error + nat"
  strain_elem_text :: "error + string option"
  brand_on_card :: "string option"

record pdp_context =
  pdp_body :: "string \<Rightarrow> error + string"
  pdp_brand :: "string \<Rightarrow> string option"

fun dollar_texts :: "(error + string option) list \<Rightarrow> string list" where
  \<comment> \<open>the texts of the price elements that are present and contain a dollar sign\<close>
  "dollar_texts [] = []"
| "dollar_texts (Inl e # es) = dollar_texts es"
| "dollar_texts (Inr None # es) = dollar_texts es"
| "dollar_texts (Inr (Some text) # es) =
     (if text \<noteq> [] \<and> CHR ''$'' \<in> set text then text # dollar_texts es else dollar_texts es)"

definition extract_price_from_card :: "card \<Rightarrow> rat option" where
  "extract_price_from_card c =
     (case price_elems c of
        Inl e \<Rightarrow> None
      | Inr elems \<Rightarrow>
          (let texts = dollar_texts (take 4 elems) in
           case (if texts = []
                 then (case inner_text c of
                         Inl e \<Rightarrow> Inl e
                       | Inr card_text \<Rightarrow> Inr (if card_text = [] then [] else [card_text]))
                 else Inr texts) of
             Inl e \<Rightarrow> None
           | Inr texts' \<Rightarrow>
               (case price_from_blob (py_join '' '' texts') of Inl e \<Rightarrow> None | Inr r \<Rightarrow> r)))"

definition extract_price_from_pdp :: "pdp_context \<Rightarrow> string \<Rightarrow> rat option" where
  "extract_price_from_pdp ctx url =
     (if url = [] then None
      else case pdp_body ctx url of
             Inl e \<Rightarrow> None
           | Inr body_text \<Rightarrow>
               (case price_from_blob body_text of Inl e \<Rightarrow> None | Inr r \<Rightarrow> r))"

definition STRAIN_CARD_RE :: pattern where
  \<comment> \<open>\<^verbatim>\<open>(Indica|Sativa|Hybrid)\<close> with \<open>re.I\<close>\<close>
  "STRAIN_CARD_RE =
     \<lparr>tree = Group 1 (alts (lits ''Indica'') [lits ''Sativa'', lits ''Hybrid'']),
      ignorecase = True\<rparr>"

definition strain_from_card_text :: "card \<Rightarrow> string option" where
  \<comment> \<open>the fallback of \<open>extract_strain_type_from_card\<close>: the card's whole text\<close>
  "strain_from_card_text c =
     (case inner_text c of Inl e \<Rightarrow> None | Inr card_text \<Rightarrow> extract_strain_type_from_text card_text)"

definition extract_strain_type_from_card :: "card \<Rightarrow> string option" where
  "extract_strain_type_from_card c =
     (case strain_elem_count c of
        Inl e \<Rightarrow> None
      | Inr n \<Rightarrow>
          if 0 < n then
            (case strain_elem_text c of
               Inl e \<Rightarrow> None
             | Inr None \<Rightarrow> strain_from_card_text c
             | Inr (Some text) \<Rightarrow>
                 if text = [] then strain_from_card_text c
                 else (case search STRAIN_CARD_RE text of
                         None \<Rightarrow> strain_from_card_text c
                       | Some m \<Rightarrow> (case group m 1 of
                                     None \<Rightarrow> None
                                   | Some g \<Rightarrow> Some (capitalize g))))
          else strain_from_card_text c)"

section \<open>Product records (models.py)\<close>

record ProductData =
  state :: string
  store :: string
  subcategory :: string
  name :: string
  brand :: "string option"
  strain_type :: "string option"
  thc_pct :: "rat option"
  size_raw :: "string option"
  grams :: "rat option"
  price :: "rat option"
  price_per_g :: "rat option"
  url :: "string option"
  scraped_at :: nat

definition round_half_even :: "rat \<Rightarrow> int" where
  "round_half_even x =
     (let f = \<lfloor>x\<rfloor>; d = x - of_int f in
      if d < 1 / 2 then f else if 1 / 2 < d then f + 1 else if even f then f else f + 1)"

definition round2 :: "rat \<Rightarrow> rat" where
  \<comment> \<open>\<open>round(x, 2)\<close> on the exact quotient\<close>
  "round2 x = of_int (round_half_even (x * 100)) / 100"

definition calculate_price_per_g :: "ProductData \<Rightarrow> ProductData" where
  \<comment> \<open>\<open>if self.price and self.grams and self.grams > 0\<close>: a number is true when it is
      not zero, \<open>None\<close> is false\<close>
  "calculate_price_per_g p =
     (case price p of
        None \<Rightarrow> p
      | Some pr \<Rightarrow>
          (case grams p of
             None \<Rightarrow> p
           | Some g \<Rightarrow>
               if pr \<noteq> 0 \<and> g \<noteq> 0 \<and> 0 < g
               then p\<lparr>price_per_g := Some (round2 (pr / g))\<rparr>
               else p))"

section \<open>Assembling a product (data\_extractors.py)\<close>

record world =
  urljoin :: "string \<Rightarrow> string \<Rightarrow> string"
  clock :: nat

definition ok :: "error + 'a \<Rightarrow> 'a option" where
  \<comment> \<open>inside \<open>try: ... except Exception: return None\<close> a raise ends the function with \<open>None\<close>\<close>
  "ok r = (case r of Inl e \<Rightarrow> None | Inr v \<Rightarrow> Some v)"

definition pdp_price_fallback :: "pdp_context option \<Rightarrow> string option \<Rightarrow> rat option \<Rightarrow> rat option" where
  "pdp_price_fallback context link price0 =
     (case context of
        None \<Rightarrow> price0
      | Some ctx \<Rightarrow>
          (case link of
             None \<Rightarrow> price0
           | Some u \<Rightarrow>
               if u \<noteq> [] \<and> price0 = None
               then (case extract_price_from_pdp ctx u of None \<Rightarrow> price0 | Some v \<Rightarrow> Some v)
               else price0))"

definition pdp_brand_fallback :: "pdp_context option \<Rightarrow> string option \<Rightarrow> string option \<Rightarrow> string option" where
  "pdp_brand_fallback context link brand0 =
     (case context of
        None \<Rightarrow> brand0
      | Some ctx \<Rightarrow>
          (case link of
             None \<Rightarrow> brand0
           | Some u \<Rightarrow>
               if u \<noteq> [] \<and> brand0 = None
               then (case pdp_brand ctx u of
                       None \<Rightarrow> brand0
                     | Some b \<Rightarrow> if b = [] then brand0 else Some b)
               else brand0))"

definition extract_product_data_from_card ::
  "world \<Rightarrow> card \<Rightarrow> (string \<rightharpoonup> string) \<Rightarrow> string \<Rightarrow> pdp_context option \<Rightarrow> string
     \<Rightarrow> ProductData option" where
  "extract_product_data_from_card w c category_config store_name context base_url =
     (case ok (name_link_count c) of
        None \<Rightarrow> None
      | Some n \<Rightarrow>
     if n = 0 then None else
     (case ok (name_link_text c) of
        None \<Rightarrow> None
      | Some None \<Rightarrow> None
      | Some (Some nm) \<Rightarrow>
     if nm = [] \<or> strip nm = [] then None else
     (case ok (name_link_href c) of
        None \<Rightarrow> None
      | Some href \<Rightarrow>
     (case ok (inner_text c) of
        None \<Rightarrow> None
      | Some card_text \<Rightarrow>
     (case ok (extract_size_from_text card_text) of
        None \<Rightarrow> None
      | Some sz \<Rightarrow>
     (case ok (extract_thc_from_text card_text) of
        None \<Rightarrow> None
      | Some thc \<Rightarrow>
     (case category_config ''subcategory'' of
        None \<Rightarrow> None
      | Some sub \<Rightarrow>
          (let link = (case href of
                         None \<Rightarrow> None
                       | Some h \<Rightarrow> if h = [] then None else Some (urljoin w base_url h))
           in Some (calculate_price_per_g
                \<lparr>state = ''FL'', store = store_name, subcategory = sub, name = strip nm,
                 brand = pdp_brand_fallback context link (brand_on_card c),
                 strain_type = extract_strain_type_from_card c,
                 thc_pct = thc,
                 size_raw = sz,
                 grams = grams_from_size sz,
                 price = pdp_price_fallback context link (extract_price_from_card c),
                 price_per_g = None,
                 url = link,
                 scraped_at = clock w\<rparr>)))))))))"

section \<open>One category of one store (trulieve\_scraper.py)\<close>

record StoreInfo =
  si_name :: string
  si_url :: string
  si_location :: "string option"
  si_state :: string

definition before :: "string \<Rightarrow> string \<Rightarrow> string" where
  \<comment> \<open>\<open>s.split(sep, 1)[0]\<close>\<close>
  "before sep s = (case split_once sep s of None \<Rightarrow> s | Some (a, b) \<Rightarrow> a)"

definition product_slug :: "string option \<Rightarrow> string" where
  \<comment> \<open>without \<open>/product/\<close> in it, \<open>split(...)[1]\<close> raises IndexError and the href is returned\<close>
  "product_slug href =
     (case href of
        None \<Rightarrow> []
      | Some h \<Rightarrow>
          if h = [] then []
          else (case split_once ''/product/'' h of
                  None \<Rightarrow> h
                | Some (a, rest) \<Rightarrow> strip_chr CHR ''/'' (before ''#'' (before ''?'' rest))))"

text \<open>
  A product element of the category page: the card around the link, and what
  \<open>link.get_attribute("href")\<close> answers.
\<close>

record element =
  el_card :: card
  el_href :: "error + string option"

type_synonym dedup_key = "string \<times> string \<times> string option \<times> string"

definition element_product ::
  "world \<Rightarrow> pdp_context \<Rightarrow> string \<Rightarrow> (string \<rightharpoonup> string) \<Rightarrow> StoreInfo \<Rightarrow> element
     \<Rightarrow> (dedup_key \<times> ProductData) option" where
  \<comment> \<open>the product of one element with its key, or nothing when the element is skipped
      (no product, or a raise inside the loop body)\<close>
  "element_product w ctx base_url category_config st e =
     (case extract_product_data_from_card w (el_card e) category_config (si_name st)
             (Some ctx) base_url of
        None \<Rightarrow> None
      | Some product \<Rightarrow>
          (case el_href e of
             Inl err \<Rightarrow> None
           | Inr href \<Rightarrow>
               (case category_config ''subcategory'' of
                  None \<Rightarrow> None
                | Some sub \<Rightarrow>
                    Some ((si_name st, product_slug href, size_raw product, sub), product))))"

fun process_links ::
  "world \<Rightarrow> pdp_context \<Rightarrow> string \<Rightarrow> (string \<rightharpoonup> string) \<Rightarrow> StoreInfo \<Rightarrow> element list
     \<Rightarrow> ProductData list \<Rightarrow> dedup_key set \<Rightarrow> ProductData list" where
  \<comment> \<open>the loop of \<open>scrape_category\<close> over \<open>name_links\<close>, with \<open>products\<close> and \<open>seen_keys\<close>\<close>
  "process_links w ctx base_url category_config st [] products seen_keys = products"
| "process_links w ctx base_url category_config st (e # es) products seen_keys =
     (case element_product w ctx base_url category_config st e of
        None \<Rightarrow> process_links w ctx base_url category_config st es products seen_keys
      | Some (key, product) \<Rightarrow>
          if key \<notin> seen_keys
          then process_links w ctx base_url category_config st es (products @ [product])
                 (insert key seen_keys)
          else process_links w ctx base_url category_config st es products seen_keys)"

definition scrape_links ::
  "world \<Rightarrow> pdp_context \<Rightarrow> string \<Rightarrow> (string \<rightharpoonup> string) \<Rightarrow> StoreInfo \<Rightarrow> element list
     \<Rightarrow> ProductData list" where
  \<comment> \<open>lines 190-228 of \<open>scrape_category\<close>: both collections start empty\<close>
  "scrape_links w ctx base_url category_config st es =
     process_links w ctx base_url category_config st es [] {}"

section \<open>Navigation with retries (base\_scraper.py)\<close>

text \<open>
  The operation handed to \<open>_retry_operation\<close> is a call into the browser: its outcome at
  the \<open>n\<close>-th call (counted from 0) is an observation. The result records the outcome,
  the seconds slept between attempts, in order, and how many times the operation was
  called.
\<close>

record 'a retried =
  outcome :: "error + 'a"
  waits :: "rat list"
  calls :: nat

function retry_loop ::
  "(nat \<Rightarrow> error + 'a) \<Rightarrow> int \<Rightarrow> rat \<Rightarrow> nat \<Rightarrow> rat list \<Rightarrow> error option \<Rightarrow> 'a retried" where
  "retry_loop operation max_retries delay attempt slept last_exception =
     (if int attempt < max_retries + 1 then
        (case operation attempt of
           Inr v \<Rightarrow> \<lparr>outcome = Inr v, waits = slept, calls = attempt + 1\<rparr>
         | Inl e \<Rightarrow>
             if int attempt < max_retries
             then retry_loop operation max_retries delay (attempt + 1)
                    (slept @ [delay * 2 ^ attempt]) (Some e)
             else retry_loop operation max_retries delay (attempt + 1) slept (Some e))
      else
        \<lparr>outcome = (case last_exception of
                       None \<Rightarrow> Inl (Exc TypeError ''exceptions must derive from BaseException'')
                     | Some e \<Rightarrow> Inl e),
         waits = slept, calls = attempt\<rparr>)"
  by pat_completeness auto
termination
  by (relation "measure (\<lambda>(operation, max_retries, delay, attempt, slept, last_exception).
        nat (max_retries + 1 - int attempt))") auto

definition retry_operation :: "(nat \<Rightarrow> error + 'a) \<Rightarrow> int \<Rightarrow> rat \<Rightarrow> 'a retried" where
  "retry_operation operation max_retries delay =
     retry_loop operation max_retries delay 0 [] None"

definition randint :: "int \<Rightarrow> int \<Rightarrow> nat \<Rightarrow> error + int" where
  \<comment> \<open>\<open>random.randint(lo, hi)\<close>; the last argument is the randomness consumed\<close>
  "randint lo hi pick =
     (if hi < lo then Inl (Exc ValueError ''empty range for randrange()'')
      else Inr (lo + int pick mod (hi - lo + 1)))"

record goto_result =
  result :: "error + unit"
  backoff :: "rat list"
  rate_limit :: "rat option"
  goto_calls :: nat

definition safe_page_goto :: "(nat \<Rightarrow> error + unit) \<Rightarrow> int \<times> int \<Rightarrow> nat \<Rightarrow> goto_result" where
  \<comment> \<open>\<open>_retry_operation(goto_operation)\<close> with its defaults \<open>max_retries=3, delay=1.0\<close>,
      then \<open>_apply_rate_limit\<close>; both \<open>except\<close> clauses raise again\<close>
  "safe_page_goto goto rate_limit_delay pick =
     (let r = retry_operation goto 3 1 in
      case outcome r of
        Inl e \<Rightarrow> \<lparr>result = Inl e, backoff = waits r, rate_limit = None, goto_calls = calls r\<rparr>
      | Inr u \<Rightarrow>
          (case randint (fst rate_limit_delay) (snd rate_limit_delay) pick of
             Inl e \<Rightarrow> \<lparr>result = Inl e, backoff = waits r, rate_limit = None, goto_calls = calls r\<rparr>
           | Inr ms \<Rightarrow> \<lparr>result = Inr (), backoff = waits r,
                        rate_limit = Some (of_int ms / 1000), goto_calls = calls r\<rparr>))"

section \<open>Store discovery (trulieve\_scraper.py)\<close>

record ScrapingConfig =
  base_url :: string
  dispensaries_url :: string
  categories :: "(string \<rightharpoonup> string) list"
  output_dir :: string
  headless :: bool
  rate_limit_delay :: "int \<times> int"







section \<open>The run result (models.py)\<close>

record ScrapingResult =
  success :: bool
  products :: "ProductData list"
  error_message :: "string option"
  categories_scraped :: int
  stores_scraped :: int
  total_products :: int
  duration_seconds :: "rat option"

definition post_init :: "ScrapingResult \<Rightarrow> ScrapingResult" where
  \<comment> \<open>the method \<open>__post_init__\<close> of the class\<close>
  "post_init r = r\<lparr>total_products := int (length (products r))\<rparr>"

text \<open>
  \<open>ScrapingResult\<close> is a pydantic \<open>BaseModel\<close>. Its constructor validates the keyword
  arguments and fills the other fields from their \<open>Field\<close> defaults. \<open>__post_init__\<close>
  is the hook of dataclasses; the constructor of a \<open>BaseModel\<close> does not call it. Every
  construction in the scrapers passes the six arguments below and never
  \<open>total_products\<close>, which keeps its default \<open>0\<close>.
\<close>

definition ScrapingResult_init ::
  "bool \<Rightarrow> ProductData list \<Rightarrow> string option \<Rightarrow> int \<Rightarrow> int \<Rightarrow> rat option \<Rightarrow> ScrapingResult" where
  "ScrapingResult_init succ prods msg cats strs dur =
     \<lparr>success = succ, products = prods, error_message = msg, categories_scraped = cats,
      stores_scraped = strs, total_products = 0, duration_seconds = dur\<rparr>"

section \<open>The run coordinator (base\_scraper.py)\<close>

text \<open>
  What a run observes: whether the browser session opens (everything from
  \<open>async_playwright()\<close> to \<open>context.new_page()\<close>), what the two abstract methods answer,
  whether \<open>browser.close()\<close> raises, and the elapsed time. In base\_scraper.py the name
  \<open>async_playwright\<close> is not imported, so there the session raises \<open>NameError\<close> on every
  run; base\_scraper\_sync.py has the same workflow over \<open>sync_playwright\<close>, which it
  imports. \<open>_apply_rate_limit\<close> runs after the category has been counted and inside its
  \<open>try\<close>, so a raise there changes nothing below.
\<close>

record run_env =
  session :: "error option"
  discovery :: "error + StoreInfo list"
  category_scrape :: "StoreInfo \<Rightarrow> (string \<rightharpoonup> string) \<Rightarrow> error + ProductData list"
  browser_close :: "error option"
  elapsed :: rat

record run_state =
  all_products :: "ProductData list"
  n_stores :: int
  n_categories :: int

fun category_loop ::
  "run_env \<Rightarrow> StoreInfo \<Rightarrow> (string \<rightharpoonup> string) list \<Rightarrow> run_state \<Rightarrow> error option \<times> run_state" where
  \<comment> \<open>a category without the key \<open>subcategory\<close> raises \<open>KeyError\<close> in the first log line and
      again in the log line of the handler, which leaves the loop\<close>
  "category_loop env st [] s = (None, s)"
| "category_loop env st (category # rest) s =
     (case category ''subcategory'' of
        None \<Rightarrow> (Some (Exc KeyError ''subcategory''), s)
      | Some sub \<Rightarrow>
          (case category_scrape env st category of
             Inl e \<Rightarrow> category_loop env st rest s
           | Inr prods \<Rightarrow>
               category_loop env st rest
                 (s\<lparr>all_products := all_products s @ prods,
                    n_categories := n_categories s + 1\<rparr>)))"

fun store_loop ::
  "run_env \<Rightarrow> (string \<rightharpoonup> string) list \<Rightarrow> StoreInfo list \<Rightarrow> run_state \<Rightarrow> run_state" where
  "store_loop env cats [] s = s"
| "store_loop env cats (st # rest) s =
     (case category_loop env st cats s of
        (Some e, s') \<Rightarrow> store_loop env cats rest s'
      | (None, s') \<Rightarrow> store_loop env cats rest (s'\<lparr>n_stores := n_stores s' + 1\<rparr>))"

definition scrape_all_categories :: "run_env \<Rightarrow> ScrapingConfig \<Rightarrow> ScrapingResult" where
  "scrape_all_categories env cfg =
     (let s0 = \<lparr>all_products = [], n_stores = 0, n_categories = 0\<rparr> in
      case session env of
        Some e \<Rightarrow>
          ScrapingResult_init False [] (Some (str_exc e)) (n_categories s0) (n_stores s0)
            (Some (elapsed env))
      | None \<Rightarrow>
          (case discovery env of
             Inl e \<Rightarrow>
               ScrapingResult_init False [] (Some (str_exc e)) (n_categories s0) (n_stores s0)
                 (Some (elapsed env))
           | Inr stores \<Rightarrow>
               (let s = store_loop env (categories cfg) stores s0 in
                case browser_close env of
                  Some e \<Rightarrow>
                    ScrapingResult_init False [] (Some (str_exc e)) (n_categories s) (n_stores s)
                      (Some (elapsed env))
                | None \<Rightarrow>
                    ScrapingResult_init True (all_products s) None (n_categories s) (n_stores s)
                      (Some (elapsed env)))))"


section \<open>Concrete inputs\<close>

definition default_config :: ScrapingConfig where
  \<comment> \<open>the defaults of \<open>ScrapingConfig\<close> in models.py\<close>
  "default_config =
     \<lparr>base_url = ''https://www.trulieve.com'',
      dispensaries_url = ''https://www.trulieve.com/dispensaries'',
      categories =
        [[''url'' \<mapsto> ''/category/flower/whole-flower'', ''subcategory'' \<mapsto> ''Whole Flower'',
          ''prefix'' \<mapsto> ''trulieve_FL_whole_flower''],
         [''url'' \<mapsto> ''/category/flower/pre-rolls'', ''subcategory'' \<mapsto> ''Pre-Rolls'',
          ''prefix'' \<mapsto> ''trulieve_FL_pre_rolls''],
         [''url'' \<mapsto> ''/category/flower/minis'', ''subcategory'' \<mapsto> ''Ground & Shake'',
          ''prefix'' \<mapsto> ''trulieve_FL_ground_shake'']],
      output_dir = ''~/local/trulieve/'',
      headless = True,
      rate_limit_delay = (700, 1500)\<rparr>"

definition whole_flower :: "string \<rightharpoonup> string" where
  "whole_flower =
     [''url'' \<mapsto> ''/category/flower/whole-flower'', ''subcategory'' \<mapsto> ''Whole Flower'',
      ''prefix'' \<mapsto> ''trulieve_FL_whole_flower'']"

definition demo_world :: world where
  "demo_world = \<lparr>urljoin = (\<lambda>base href. base @ href), clock = 0\<rparr>"

definition no_pdp :: pdp_context where
  "no_pdp = \<lparr>pdp_body = (\<lambda>u. Inl (Exc PlaywrightTimeoutError ''Timeout 20000ms exceeded'')),
             pdp_brand = (\<lambda>u. None)\<rparr>"

definition timeout_error :: error where
  "timeout_error = Exc PlaywrightTimeoutError ''Timeout 30000ms exceeded''"

definition always_times_out :: "nat \<Rightarrow> error + unit" where
  "always_times_out n = Inl timeout_error"

definition fourth_try_loads :: "nat \<Rightarrow> error + unit" where
  "fourth_try_loads n = (if n < 3 then Inl timeout_error else Inr ())"


definition miami :: StoreInfo where
  "miami = \<lparr>si_name = ''Miami Beach, FL'',
            si_url = ''https://www.trulieve.com/dispensaries/miami-fl'',
            si_location = Some ''Miami Beach, FL'', si_state = ''FL''\<rparr>"

definition text_card :: "string \<Rightarrow> string \<Rightarrow> string \<Rightarrow> card" where
  \<comment> \<open>a card with a name link and a visible text, without price, strain or brand elements\<close>
  "text_card nm href text =
     \<lparr>name_link_count = Inr 1, name_link_text = Inr (Some nm), name_link_href = Inr (Some href),
      inner_text = Inr text, price_elems = Inr [], strain_elem_count = Inr 0,
      strain_elem_text = Inr None, brand_on_card = None\<rparr>"

definition blue_dream :: ProductData where
  "blue_dream =
     \<lparr>state = ''FL'', store = ''Miami Beach, FL'', subcategory = ''Whole Flower'',
      name = ''Blue Dream'', brand = None, strain_type = Some ''Hybrid'',
      thc_pct = Some (37 / 2), size_raw = Some ''3.5g'', grams = Some (7 / 2),
      price = Some (2599 / 100), price_per_g = Some (743 / 100), url = None, scraped_at = 0\<rparr>"

definition one_product_run :: run_env where
  \<comment> \<open>the session opens, one store is found, every category yields one product\<close>
  "one_product_run =
     \<lparr>session = None, discovery = Inr [miami],
      category_scrape = (\<lambda>st category. Inr [blue_dream]),
      browser_close = None, elapsed = 12\<rparr>"

section \<open>Deduplication as the specification words it\<close>

text \<open>
  These two functions are not in the source. They say what "the first occurrence of each
  key wins" and "the list with later duplicates removed" mean, to compare the loop of
  \<open>scrape_category\<close> with them.
\<close>

fun first_per_key :: "('k \<times> 'v) list \<Rightarrow> ('k \<times> 'v) list" where
  "first_per_key [] = []"
| "first_per_key ((k, v) # kvs) = (k, v) # first_per_key (filter (\<lambda>(k', v'). k' \<noteq> k) kvs)"

fun later_duplicates_removed :: "('e \<Rightarrow> ('k \<times> 'v) option) \<Rightarrow> 'e list \<Rightarrow> 'k set \<Rightarrow> 'e list" where
  \<comment> \<open>drops every element whose key an earlier element has already yielded\<close>
  "later_duplicates_removed f [] seen = []"
| "later_duplicates_removed f (e # es) seen =
     (case f e of
        None \<Rightarrow> e # later_duplicates_removed f es seen
      | Some (k, v) \<Rightarrow>
          if k \<in> seen then later_duplicates_removed f es seen
          else e # later_duplicates_removed f es (insert k seen))"

definition blue_dream_link :: element where
  "blue_dream_link =
     \<lparr>el_card = text_card ''Blue Dream'' ''/product/blue-dream-3-5g''
                  ''Blue Dream $25.99 3.5g THC: 18.5% Hybrid'',
      el_href = Inr (Some ''/product/blue-dream-3-5g'')\<rparr>"

definition blue_dream_again :: element where
  \<comment> \<open>the same product listed a second time, at another price\<close>
  "blue_dream_again =
     \<lparr>el_card = text_card ''Blue Dream'' ''/product/blue-dream-3-5g''
                  ''Blue Dream $19.99 3.5g THC: 18.5% Hybrid'',
      el_href = Inr (Some ''/product/blue-dream-3-5g?ref=promo'')\<rparr>"

definition og_kush_link :: element where
  "og_kush_link =
     \<lparr>el_card = text_card ''OG Kush'' ''/product/og-kush-7g'' ''OG Kush $40.00 7g Indica'',
      el_href = Inr (Some ''/product/og-kush-7g'')\<rparr>"

definition sale_card :: card where
  \<comment> \<open>a card with three price elements, one of them without a dollar sign\<close>
  "sale_card =
     \<lparr>name_link_count = Inr 1, name_link_text = Inr (Some ''Blue Dream''),
      name_link_href = Inr (Some ''/product/blue-dream-3-5g''),
      inner_text = Inr ''Blue Dream was $30.00 now $25.50 3.5g'',
      price_elems = Inr [Inr (Some ''was $30.00''), Inr (Some ''Add to cart''),
                         Inr (Some ''now $25.50'')],
      strain_elem_count = Inr 0, strain_elem_text = Inr None, brand_on_card = None\<rparr>"

section \<open>Whole-word occurrence as the specification words it\<close>

text \<open>
  Not in the source: \<open>w\<close> occurs in the text as a whole word, in any case of its letters,
  when the text splits into a part before, a part that equals \<open>w\<close> up to case, and a part
  after, with no word character next to the middle part on either side.
\<close>

definition occurs_as_word :: "string \<Rightarrow> string \<Rightarrow> bool" where
  "occurs_as_word w txt =
     list_ex (\<lambda>i. let pre = take i txt;
                      mid = take (length w) (drop i txt);
                      post = drop (length w) (drop i txt)
                  in lower mid = lower w \<and>
                     (pre = [] \<or> \<not> is_word (last pre)) \<and>
                     (post = [] \<or> \<not> is_word (hd post)))
       [0..<Suc (length txt)]"

(*THEOREMS*)

section \<open>Facts about the text primitives\<close>

lemma lower_examples:
  "lower ''3.5g'' = ''3.5g''" "lower ''7G'' = ''7g''" "lower ''bogus'' = ''bogus''"
  by (simp_all add: lower_def lower_chr_def upper_letters_def lower_letters_def)

section \<open>The grams lookup\<close>

text \<open>
  C8. \<open>grams_from_size\<close> returns the mapped grams for each of the eight labels, whatever
  the case of the letters of its argument, and nothing for every other string, for the
  empty string and for an absent argument.
\<close>

theorem grams_from_size_vocabulary:
  "grams_from_size None = None \<and> grams_from_size (Some []) = None \<and>
   (lower s = ''0.5g'' \<longrightarrow> grams_from_size (Some s) = Some (1 / 2)) \<and>
   (lower s = ''1g'' \<longrightarrow> grams_from_size (Some s) = Some 1) \<and>
   (lower s = ''2g'' \<longrightarrow> grams_from_size (Some s) = Some 2) \<and>
   (lower s = ''3.5g'' \<longrightarrow> grams_from_size (Some s) = Some (7 / 2)) \<and>
   (lower s = ''7g'' \<longrightarrow> grams_from_size (Some s) = Some 7) \<and>
   (lower s = ''10g'' \<longrightarrow> grams_from_size (Some s) = Some 10) \<and>
   (lower s = ''14g'' \<longrightarrow> grams_from_size (Some s) = Some 14) \<and>
   (lower s = ''28g'' \<longrightarrow> grams_from_size (Some s) = Some 28) \<and>
   (lower s \<notin> set [''0.5g'', ''1g'', ''2g'', ''3.5g'', ''7g'', ''10g'', ''14g'', ''28g'']
      \<longrightarrow> grams_from_size (Some s) = None)"
  by (auto simp add: SIZE_MAP_def lower_def)

theorem grams_from_size_vocabulary_witness:
  "grams_from_size (Some ''3.5g'') = Some (7 / 2) \<and>
   grams_from_size (Some ''7G'') = Some 7 \<and>
   grams_from_size (Some ''bogus'') = None"
  using grams_from_size_vocabulary [of "''3.5g''"] grams_from_size_vocabulary [of "''7G''"]
    grams_from_size_vocabulary [of "''bogus''"]
  by (simp only: lower_examples) simp

section \<open>The run result\<close>

lemma total_products_default: "total_products (scrape_all_categories env cfg) = 0"
  by (simp add: scrape_all_categories_def ScrapingResult_init_def Let_def
      split: option.splits sum.splits)

text \<open>
  C1. The claim is that \<open>total_products\<close> equals the number of products of every result
  of the coordinator. The constructor never runs \<open>__post_init__\<close>, so the field is \<open>0\<close>
  in every result; a successful run over one store and the three default categories,
  each yielding one product, returns three products and \<open>total_products = 0\<close>.
\<close>

theorem total_products_stays_zero:
  "total_products (scrape_all_categories env cfg) = 0 \<and>
   success (scrape_all_categories one_product_run default_config) \<and>
   length (products (scrape_all_categories one_product_run default_config)) = 3"
  apply (rule conjI)
   apply (rule total_products_default)
  apply (simp add: scrape_all_categories_def ScrapingResult_init_def one_product_run_def
      default_config_def)
  done

section \<open>Price per gram\<close>

text \<open>
  C2. The claim is that the price per gram is computed whenever price and grams are
  present and the grams are positive, also for a price of 0. A card that reads
  \<open>Free Sample $0.00 3.5g\<close> is assembled with price 0 and 3.5 grams, and its price per
  gram stays absent: \<open>calculate_price_per_g\<close> tests the price for truth, and 0 is false.
\<close>

theorem zero_price_has_no_price_per_gram:
  "map_option (\<lambda>p. (price p, grams p, price_per_g p))
     (extract_product_data_from_card demo_world
        (text_card ''Free Sample'' ''/product/free-sample'' ''Free Sample $0.00 3.5g'')
        whole_flower ''Miami Beach, FL'' (Some no_pdp) ''https://www.trulieve.com'')
   = Some (Some 0, Some (7 / 2), None)"
  by code_simp

section \<open>Retries\<close>

lemma retry_loop_success:
  assumes "operation k = Inr v" "\<forall>j. a \<le> j \<and> j < k \<longrightarrow> isl (operation j)"
    "a \<le> k" "int k \<le> max_retries"
  shows "retry_loop operation max_retries delay a slept lastx =
     \<lparr>outcome = Inr v, waits = slept @ map (\<lambda>j. delay * 2 ^ j) [a..<k], calls = k + 1\<rparr>"
  using assms
proof (induction "k - a" arbitrary: a slept lastx)
  case 0
  then have "a = k" by simp
  with 0 show ?case by (subst retry_loop.simps) simp
next
  case (Suc n)
  then have lt: "a < k" by simp
  with Suc.prems obtain e where e: "operation a = Inl e"
    by (metis le_refl sum.collapse(1))
  have step: "retry_loop operation max_retries delay a slept lastx =
      retry_loop operation max_retries delay (a + 1) (slept @ [delay * 2 ^ a]) (Some e)"
    using lt Suc.prems(4) e by (subst retry_loop.simps) simp
  have "retry_loop operation max_retries delay (a + 1) (slept @ [delay * 2 ^ a]) (Some e) =
      \<lparr>outcome = Inr v, waits = (slept @ [delay * 2 ^ a]) @ map (\<lambda>j. delay * 2 ^ j) [a + 1..<k],
       calls = k + 1\<rparr>"
    using Suc.hyps(2) Suc.prems lt by (intro Suc.hyps(1)) auto
  then show ?case using step lt by (simp add: upt_conv_Cons)
qed

lemma retry_loop_exhausted:
  assumes "\<forall>j. a \<le> j \<and> int j \<le> max_retries \<longrightarrow> isl (operation j)"
    "int a \<le> max_retries" "operation (nat max_retries) = Inl e"
  shows "retry_loop operation max_retries delay a slept lastx =
     \<lparr>outcome = Inl e, waits = slept @ map (\<lambda>j. delay * 2 ^ j) [a..<nat max_retries],
      calls = nat max_retries + 1\<rparr>"
  using assms
proof (induction "nat max_retries - a" arbitrary: a slept lastx)
  case 0
  then have a: "a = nat max_retries" by simp
  have "retry_loop operation max_retries delay a slept lastx =
      retry_loop operation max_retries delay (a + 1) slept (Some e)"
    using 0 a by (subst retry_loop.simps) simp
  also have "\<dots> = \<lparr>outcome = Inl e, waits = slept, calls = a + 1\<rparr>"
    using 0 a by (subst retry_loop.simps) simp
  finally show ?case using a by simp
next
  case (Suc n)
  then have lt: "int a < max_retries" by simp
  from Suc.prems obtain e' where e': "operation a = Inl e'"
    by (metis le_refl sum.collapse(1))
  have step: "retry_loop operation max_retries delay a slept lastx =
      retry_loop operation max_retries delay (a + 1) (slept @ [delay * 2 ^ a]) (Some e')"
    using lt e' by (subst retry_loop.simps) simp
  have "retry_loop operation max_retries delay (a + 1) (slept @ [delay * 2 ^ a]) (Some e') =
      \<lparr>outcome = Inl e, waits = (slept @ [delay * 2 ^ a]) @ map (\<lambda>j. delay * 2 ^ j) [a + 1..<nat max_retries],
       calls = nat max_retries + 1\<rparr>"
    using Suc.hyps(2) Suc.prems lt by (intro Suc.hyps(1)) auto
  moreover have "a < nat max_retries" using lt by simp
  ultimately show ?case using step by (simp add: upt_conv_Cons)
qed

lemma retry_operation_cases:
  assumes "0 \<le> max_retries"
  shows "(\<exists>k v. int k \<le> max_retries \<and> operation k = Inr v \<and> (\<forall>j<k. isl (operation j)) \<and>
            retry_operation operation max_retries delay =
              \<lparr>outcome = Inr v, waits = map (\<lambda>j. delay * 2 ^ j) [0..<k], calls = k + 1\<rparr>) \<or>
         (\<exists>e. operation (nat max_retries) = Inl e \<and> (\<forall>j. int j \<le> max_retries \<longrightarrow> isl (operation j)) \<and>
            retry_operation operation max_retries delay =
              \<lparr>outcome = Inl e, waits = map (\<lambda>j. delay * 2 ^ j) [0..<nat max_retries],
               calls = nat max_retries + 1\<rparr>)"
proof (cases "\<exists>k. int k \<le> max_retries \<and> \<not> isl (operation k)")
  case True
  define k where "k = (LEAST k. int k \<le> max_retries \<and> \<not> isl (operation k))"
  have k: "int k \<le> max_retries \<and> \<not> isl (operation k)"
    unfolding k_def using True by (rule LeastI_ex)
  have least: "\<forall>j<k. isl (operation j)"
  proof (intro allI impI)
    fix j assume "j < k"
    then have "\<not> (int j \<le> max_retries \<and> \<not> isl (operation j))"
      unfolding k_def by (rule not_less_Least)
    moreover have "int j \<le> max_retries" using \<open>j < k\<close> k by simp
    ultimately show "isl (operation j)" by simp
  qed
  from k obtain v where v: "operation k = Inr v" by (cases "operation k") auto
  have "retry_operation operation max_retries delay =
      \<lparr>outcome = Inr v, waits = [] @ map (\<lambda>j. delay * 2 ^ j) [0..<k], calls = k + 1\<rparr>"
    unfolding retry_operation_def using v least k by (intro retry_loop_success) auto
  then show ?thesis using k v least by auto
next
  case False
  then have all: "\<forall>j. int j \<le> max_retries \<longrightarrow> isl (operation j)" by blast
  with assms obtain e where e: "operation (nat max_retries) = Inl e"
    by (cases "operation (nat max_retries)") (auto dest: spec [of _ "nat max_retries"])
  have "retry_operation operation max_retries delay =
      \<lparr>outcome = Inl e, waits = [] @ map (\<lambda>j. delay * 2 ^ j) [0..<nat max_retries],
       calls = nat max_retries + 1\<rparr>"
    unfolding retry_operation_def using all e assms by (intro retry_loop_exhausted) auto
  then show ?thesis using e all by auto
qed

text \<open>
  C4 (as amended). Navigation calls \<open>page.goto\<close> at least once and at most four times:
  the first try and three retries. Every attempt but the last one made has failed, and
  after the failed attempt number \<open>j\<close> (from 0) it has slept \<open>1.0 * 2 ^ j\<close> seconds; when
  fewer than four calls were made the last one succeeded; when all four attempts fail,
  the sleeps were 1, 2 and 4 seconds and the error of the fourth attempt is raised.
\<close>

theorem safe_page_goto_four_attempts:
  "(let g = safe_page_goto goto rl pick in
    1 \<le> goto_calls g \<and> goto_calls g \<le> 4 \<and>
    (\<forall>j < goto_calls g - 1. isl (goto j)) \<and>
    backoff g = map (\<lambda>j. 1 * 2 ^ j) [0..<goto_calls g - 1] \<and>
    (goto_calls g < 4 \<longrightarrow> goto (goto_calls g - 1) = Inr ()) \<and>
    ((\<forall>j < 4. goto j = Inl (e j)) \<longrightarrow>
       goto_calls g = 4 \<and> backoff g = [1, 2, 4] \<and> result g = Inl (e 3)))"
proof -
  let ?r = "retry_operation goto 3 1"
  have calls: "goto_calls (safe_page_goto goto rl pick) = calls ?r"
    and waits: "backoff (safe_page_goto goto rl pick) = waits ?r"
    by (simp_all add: safe_page_goto_def Let_def split: sum.splits)
  have fail: "\<And>x. outcome ?r = Inl x \<Longrightarrow> result (safe_page_goto goto rl pick) = Inl x"
    by (simp add: safe_page_goto_def Let_def split: sum.splits)
  have up3: "[0..<3] = [0, 1, 2::nat]" by (simp add: upt_rec)
  from retry_operation_cases [of 3 goto 1] consider
    (won) k v where "int k \<le> 3" "goto k = Inr v" "\<forall>j<k. isl (goto j)"
      "?r = \<lparr>outcome = Inr v, waits = map (\<lambda>j. 1 * 2 ^ j) [0..<k], calls = k + 1\<rparr>"
  | (lost) x where "goto (nat 3) = Inl x" "\<forall>j. int j \<le> 3 \<longrightarrow> isl (goto j)"
      "?r = \<lparr>outcome = Inl x, waits = map (\<lambda>j. 1 * 2 ^ j) [0..<nat 3], calls = nat 3 + 1\<rparr>"
    by auto
  then show ?thesis
  proof cases
    case won
    have "\<not> (\<forall>j<4. goto j = Inl (e j))"
    proof
      assume "\<forall>j<4. goto j = Inl (e j)"
      moreover have "k < 4" using won(1) by simp
      ultimately have "goto k = Inl (e k)" by blast
      with won(2) show False by simp
    qed
    then have "(\<forall>j<4. goto j = Inl (e j)) \<longrightarrow>
        goto_calls (safe_page_goto goto rl pick) = 4 \<and>
        backoff (safe_page_goto goto rl pick) = [1, 2, 4] \<and>
        result (safe_page_goto goto rl pick) = Inl (e 3)"
      by blast
    moreover have "1 \<le> calls ?r \<and> calls ?r \<le> 4 \<and> (\<forall>j < calls ?r - 1. isl (goto j)) \<and>
        waits ?r = map (\<lambda>j. 1 * 2 ^ j) [0..<calls ?r - 1] \<and>
        (calls ?r < 4 \<longrightarrow> goto (calls ?r - 1) = Inr ())"
      using won by simp
    ultimately show ?thesis
      unfolding Let_def calls waits by blast
  next
    case lost
    have "result (safe_page_goto goto rl pick) = Inl x"
      using lost(3) by (intro fail) simp
    moreover have "(\<forall>j<4. goto j = Inl (e j)) \<longrightarrow> x = e 3"
      using lost(1) by auto
    ultimately show ?thesis
      using lost by (simp add: Let_def calls waits up3)
  qed
qed

text \<open>All four attempts time out: four calls, sleeps of 1, 2 and 4 seconds, the timeout raised.\<close>

theorem safe_page_goto_four_attempts_witness:
  "goto_calls (safe_page_goto always_times_out (700, 1500) 0) = 4 \<and>
   backoff (safe_page_goto always_times_out (700, 1500) 0) = [1, 2, 4] \<and>
   result (safe_page_goto always_times_out (700, 1500) 0) = Inl timeout_error"
proof -
  have "\<forall>j<4. always_times_out j = Inl timeout_error"
    by (simp add: always_times_out_def)
  with safe_page_goto_four_attempts [of always_times_out "(700, 1500)" 0 "\<lambda>j. timeout_error"]
  show ?thesis
    unfolding Let_def by blast
qed

text \<open>
  Against "at most three attempts": the page fails three times and loads at the fourth
  call, and the navigation succeeds.
\<close>

theorem fourth_attempt_counterexample:
  "goto_calls (safe_page_goto fourth_try_loads (700, 1500) 0) = 4 \<and>
   result (safe_page_goto fourth_try_loads (700, 1500) 0) = Inr ()"
  by code_simp

section \<open>Store discovery and the run\<close>






section \<open>Deduplication inside one category\<close>

lemma filter_key_commute:
  "filter (\<lambda>(k', v'). k' \<noteq> k) (filter (\<lambda>(k', v'). k' \<notin> seen) kvs) =
   filter (\<lambda>(k', v'). k' \<notin> insert k seen) kvs"
  by (induction kvs) auto

lemma process_links_first_per_key:
  "process_links w ctx b c st es prods seen =
   prods @ map snd (first_per_key (filter (\<lambda>(k, v). k \<notin> seen)
                      (List.map_filter (element_product w ctx b c st) es)))"
proof (induction es arbitrary: prods seen)
  case Nil
  show ?case by (simp add: List.map_filter_simps)
next
  case (Cons e es)
  show ?case
  proof (cases "element_product w ctx b c st e")
    case None
    then show ?thesis by (simp add: Cons.IH List.map_filter_simps)
  next
    case (Some kv)
    obtain k v where kv: "kv = (k, v)" by (cases kv)
    show ?thesis
      using Some kv by (simp add: Cons.IH List.map_filter_simps filter_key_commute del: filter_filter)
  qed
qed

lemma first_per_key_keys: "fst ` set (first_per_key kvs) = fst ` set kvs"
proof (induction kvs rule: first_per_key.induct)
  case 1
  show ?case by simp
next
  case (2 k v kvs)
  have "fst ` set (filter (\<lambda>(k', v'). k' \<noteq> k) kvs) = fst ` set kvs - {k}"
    by (auto simp add: image_iff)
  with 2 show ?case by auto
qed

lemma first_per_key_distinct: "distinct (map fst (first_per_key kvs))"
proof (induction kvs rule: first_per_key.induct)
  case 1
  show ?case by simp
next
  case (2 k v kvs)
  have "k \<notin> fst ` set (filter (\<lambda>(k', v'). k' \<noteq> k) kvs)"
    by (auto simp add: image_iff)
  then have "k \<notin> fst ` set (first_per_key (filter (\<lambda>(k', v'). k' \<noteq> k) kvs))"
    using first_per_key_keys [of "filter (\<lambda>(k', v'). k' \<noteq> k) kvs"] by blast
  with 2 show ?case by simp
qed

lemma first_per_key_none: "k \<notin> fst ` set kvs \<Longrightarrow> filter (\<lambda>(k', v). k' = k) (first_per_key kvs) = []"
proof -
  assume "k \<notin> fst ` set kvs"
  then have "k \<notin> fst ` set (first_per_key kvs)"
    using first_per_key_keys [of kvs] by blast
  then show ?thesis by (auto simp add: filter_empty_conv image_iff)
qed

lemma first_per_key_first:
  "k \<notin> fst ` set pre \<Longrightarrow>
   filter (\<lambda>(k', v). k' = k) (first_per_key (pre @ (k, p) # post)) = [(k, p)]"
proof (induction pre arbitrary: post rule: first_per_key.induct)
  case 1
  have "k \<notin> fst ` set (filter (\<lambda>(k', v'). k' \<noteq> k) post)"
    by (auto simp add: image_iff)
  then show ?case by (simp add: first_per_key_none)
next
  case (2 k0 v0 kvs)
  then have ne: "k0 \<noteq> k" and notin: "k \<notin> fst ` set (filter (\<lambda>(k', v'). k' \<noteq> k0) kvs)"
    by (auto simp add: image_iff)
  have "filter (\<lambda>(k', v'). k' \<noteq> k0) (kvs @ (k, p) # post) =
      filter (\<lambda>(k', v'). k' \<noteq> k0) kvs @ (k, p) # filter (\<lambda>(k', v'). k' \<noteq> k0) post"
    using ne by simp
  then show ?case using ne 2(1) [OF notin] by simp
qed

lemma removed_keyed:
  "List.map_filter f (later_duplicates_removed f es seen) =
   first_per_key (filter (\<lambda>(k, v). k \<notin> seen) (List.map_filter f es))"
proof (induction es arbitrary: seen)
  case Nil
  show ?case by (simp add: List.map_filter_simps)
next
  case (Cons e es)
  show ?case
  proof (cases "f e")
    case None
    then show ?thesis by (simp add: Cons.IH List.map_filter_simps)
  next
    case (Some kv)
    obtain k v where kv: "kv = (k, v)" by (cases kv)
    show ?thesis
      using Some kv by (simp add: Cons.IH List.map_filter_simps filter_key_commute del: filter_filter)
  qed
qed

lemma first_per_key_idem: "first_per_key (first_per_key kvs) = first_per_key kvs"
proof (induction kvs rule: first_per_key.induct)
  case 1
  show ?case by simp
next
  case (2 k v kvs)
  let ?r = "first_per_key (filter (\<lambda>(k', v'). k' \<noteq> k) kvs)"
  have "k \<notin> fst ` set (filter (\<lambda>(k', v'). k' \<noteq> k) kvs)"
    by (auto simp add: image_iff)
  then have "k \<notin> fst ` set ?r"
    using first_per_key_keys [of "filter (\<lambda>(k', v'). k' \<noteq> k) kvs"] by blast
  then have "filter (\<lambda>(k', v'). k' \<noteq> k) ?r = ?r"
    by (auto simp add: filter_id_conv image_iff)
  with 2 show ?case by simp
qed

text \<open>
  C9. For every list of product elements, the loop of \<open>scrape_category\<close> returns the
  products of the elements that yield a key, one per key and in order: the keys of the
  output are distinct, they are exactly the keys the elements yield, for each key the
  record kept is the one of the first element that yields it, and processing the list
  with the later duplicates removed gives the same output.
\<close>

theorem dedup_first_occurrence_wins:
  "(let f = element_product w ctx b c st;
        kvs = List.map_filter f es;
        out = scrape_links w ctx b c st es
    in out = map snd (first_per_key kvs) \<and>
       distinct (map fst (first_per_key kvs)) \<and>
       fst ` set (first_per_key kvs) = fst ` set kvs \<and>
       (\<forall>pre k p post. kvs = pre @ (k, p) # post \<and> k \<notin> fst ` set pre \<longrightarrow>
          filter (\<lambda>(k', v). k' = k) (first_per_key kvs) = [(k, p)]) \<and>
       List.map_filter f (later_duplicates_removed f es {}) = first_per_key kvs \<and>
       scrape_links w ctx b c st (later_duplicates_removed f es {}) = out)"
proof -
  let ?f = "element_product w ctx b c st"
  let ?kvs = "List.map_filter ?f es"
  have out: "scrape_links w ctx b c st xs = map snd (first_per_key (List.map_filter ?f xs))" for xs
    by (simp add: scrape_links_def process_links_first_per_key)
  have rem: "List.map_filter ?f (later_duplicates_removed ?f es {}) = first_per_key ?kvs"
    by (simp add: removed_keyed)
  have "scrape_links w ctx b c st (later_duplicates_removed ?f es {}) = scrape_links w ctx b c st es"
    by (simp only: out rem first_per_key_idem)
  then show ?thesis
    unfolding Let_def
    using out rem first_per_key_distinct [of ?kvs] first_per_key_keys [of ?kvs]
      first_per_key_first
    by (metis (mono_tags, lifting))
qed

text \<open>
  Blue Dream is listed twice under one key, at two prices, before OG Kush: the output has
  the first Blue Dream and OG Kush, and it is the output of the list without the second
  Blue Dream.
\<close>

theorem dedup_first_occurrence_wins_witness:
  "map (\<lambda>p. (name p, price p))
     (scrape_links demo_world no_pdp ''https://www.trulieve.com'' whole_flower miami
        [blue_dream_link, blue_dream_again, og_kush_link])
     = [(''Blue Dream'', Some (2599 / 100)), (''OG Kush'', Some 40)] \<and>
   map fst (filter (\<lambda>(k', v). k' = (''Miami Beach, FL'', ''blue-dream-3-5g'', Some ''3.5g'', ''Whole Flower''))
     (first_per_key (List.map_filter
        (element_product demo_world no_pdp ''https://www.trulieve.com'' whole_flower miami)
        [blue_dream_link, blue_dream_again, og_kush_link])))
     = [(''Miami Beach, FL'', ''blue-dream-3-5g'', Some ''3.5g'', ''Whole Flower'')] \<and>
   scrape_links demo_world no_pdp ''https://www.trulieve.com'' whole_flower miami
     [blue_dream_link, og_kush_link]
     = scrape_links demo_world no_pdp ''https://www.trulieve.com'' whole_flower miami
         [blue_dream_link, blue_dream_again, og_kush_link]"
proof -
  let ?f = "element_product demo_world no_pdp ''https://www.trulieve.com'' whole_flower miami"
  let ?es = "[blue_dream_link, blue_dream_again, og_kush_link]"
  let ?k = "(''Miami Beach, FL'', ''blue-dream-3-5g'', Some ''3.5g'', ''Whole Flower'')"
  have keys: "map fst (List.map_filter ?f ?es) = [?k, ?k, (''Miami Beach, FL'', ''og-kush-7g'', Some ''7g'', ''Whole Flower'')]"
    by code_simp
  then obtain p post where kvs: "List.map_filter ?f ?es = [] @ (?k, p) # post"
    by (cases "List.map_filter ?f ?es") auto
  have removed: "later_duplicates_removed ?f ?es {} = [blue_dream_link, og_kush_link]"
    by code_simp
  have prices: "map (\<lambda>p. (name p, price p))
      (scrape_links demo_world no_pdp ''https://www.trulieve.com'' whole_flower miami ?es)
      = [(''Blue Dream'', Some (2599 / 100)), (''OG Kush'', Some 40)]"
    by code_simp
  have hyp: "List.map_filter ?f ?es = [] @ (?k, p) # post \<and> ?k \<notin> fst ` set []"
    using kvs by simp
  from dedup_first_occurrence_wins [of demo_world no_pdp "''https://www.trulieve.com''"
      whole_flower miami ?es]
  have one: "filter (\<lambda>(k', v). k' = ?k) (first_per_key (List.map_filter ?f ?es)) = [(?k, p)]"
    and same: "scrape_links demo_world no_pdp ''https://www.trulieve.com'' whole_flower miami
        (later_duplicates_removed ?f ?es {})
      = scrape_links demo_world no_pdp ''https://www.trulieve.com'' whole_flower miami ?es"
    unfolding Let_def using hyp by blast+
  show ?thesis
    using prices one same by (simp only: removed) simp
qed

section \<open>Facts about the matcher\<close>

lemma run_seqs_Nil: "run ci (seqs []) s = [s]"
  by (simp add: seqs_def)

lemma run_seqs_Cons: "run ci (seqs (p # ps)) s = concat (map (run ci (seqs ps)) (run ci p s))"
  by (simp add: seqs_def)

lemma in_run_seqs_Cons:
  "s'' \<in> set (run ci (seqs (p # ps)) s) \<longleftrightarrow>
   (\<exists>s' \<in> set (run ci p s). s'' \<in> set (run ci (seqs ps) s'))"
  by (auto simp add: run_seqs_Cons)

lemma in_run_Seq:
  "s'' \<in> set (run ci (Seq a b) s) \<longleftrightarrow> (\<exists>s' \<in> set (run ci a s). s'' \<in> set (run ci b s'))"
  by auto

lemma run_lits:
  "run ci (lits w) (l, r, g) =
     (if length w \<le> length r \<and> list_all2 (chr_eq ci) w (take (length w) r)
      then [(rev (take (length w) r) @ l, drop (length w) r, g)] else [])"
proof (induction w arbitrary: l r)
  case Nil
  show ?case by (simp add: lits_def)
next
  case (Cons c w)
  have unfold: "lits (c # w) = Seq (Lit c) (lits w)" by (simp add: lits_def)
  show ?case
  proof (cases r)
    case Nil
    then show ?thesis by (simp add: unfold)
  next
    case (Cons x xs)
    then show ?thesis by (simp add: unfold Cons.IH)
  qed
qed

lemma in_star_runs:
  "s' \<in> set (star_runs k l r g) \<longleftrightarrow>
   (\<exists>d r'. r = d @ r' \<and> (\<forall>c \<in> set d. in_cls k c) \<and> s' = (rev d @ l, r', g))"
proof (induction r arbitrary: l)
  case Nil
  show ?case by auto
next
  case (Cons x xs)
  show ?case
  proof
    assume "s' \<in> set (star_runs k l (x # xs) g)"
    then consider (more) "in_cls k x" "s' \<in> set (star_runs k (x # l) xs g)"
      | (stop) "s' = (l, x # xs, g)"
      by (auto split: if_splits)
    then show "\<exists>d r'. x # xs = d @ r' \<and> (\<forall>c \<in> set d. in_cls k c) \<and> s' = (rev d @ l, r', g)"
    proof cases
      case more
      then obtain d r' where "xs = d @ r'" "\<forall>c \<in> set d. in_cls k c" "s' = (rev d @ x # l, r', g)"
        using Cons.IH by blast
      with more(1) show ?thesis
        by (intro exI [of _ "x # d"] exI [of _ r']) simp
    next
      case stop
      then show ?thesis by (intro exI [of _ "[]"] exI [of _ "x # xs"]) simp
    qed
  next
    assume "\<exists>d r'. x # xs = d @ r' \<and> (\<forall>c \<in> set d. in_cls k c) \<and> s' = (rev d @ l, r', g)"
    then obtain d r' where d: "x # xs = d @ r'" "\<forall>c \<in> set d. in_cls k c" "s' = (rev d @ l, r', g)"
      by blast
    show "s' \<in> set (star_runs k l (x # xs) g)"
    proof (cases d)
      case Nil
      with d show ?thesis by auto
    next
      case (Cons y ys)
      with d have "y = x" "xs = ys @ r'" "in_cls k x" "\<forall>c \<in> set ys. in_cls k c"
        "s' = (rev ys @ x # l, r', g)"
        by auto
      then have "s' \<in> set (star_runs k (x # l) xs g)"
        using Cons.IH by blast
      with \<open>in_cls k x\<close> show ?thesis by simp
    qed
  qed
qed

lemma in_run_StarC:
  "s' \<in> set (run ci (StarC k) (l, r, g)) \<longleftrightarrow>
   (\<exists>d r'. r = d @ r' \<and> (\<forall>c \<in> set d. in_cls k c) \<and> s' = (rev d @ l, r', g))"
  by (simp add: in_star_runs)

lemma in_run_PlusC:
  "s' \<in> set (run ci (PlusC k) (l, r, g)) \<longleftrightarrow>
   (\<exists>d r'. r = d @ r' \<and> d \<noteq> [] \<and> (\<forall>c \<in> set d. in_cls k c) \<and> s' = (rev d @ l, r', g))"
proof (cases r)
  case Nil
  then show ?thesis by simp
next
  case (Cons x xs)
  show ?thesis
  proof
    assume "s' \<in> set (run ci (PlusC k) (l, r, g))"
    then have x: "in_cls k x" and "s' \<in> set (star_runs k (x # l) xs g)"
      using Cons by (auto split: if_splits)
    then obtain d r' where "xs = d @ r'" "\<forall>c \<in> set d. in_cls k c" "s' = (rev d @ x # l, r', g)"
      using in_star_runs by blast
    with x Cons show "\<exists>d r'. r = d @ r' \<and> d \<noteq> [] \<and> (\<forall>c \<in> set d. in_cls k c) \<and> s' = (rev d @ l, r', g)"
      by (intro exI [of _ "x # d"] exI [of _ r']) simp
  next
    assume "\<exists>d r'. r = d @ r' \<and> d \<noteq> [] \<and> (\<forall>c \<in> set d. in_cls k c) \<and> s' = (rev d @ l, r', g)"
    then obtain d r' where d: "r = d @ r'" "d \<noteq> []" "\<forall>c \<in> set d. in_cls k c" "s' = (rev d @ l, r', g)"
      by blast
    then obtain y ys where ys: "d = y # ys" by (cases d) auto
    with d Cons have "y = x" "xs = ys @ r'" "in_cls k x" "\<forall>c \<in> set ys. in_cls k c"
      "s' = (rev ys @ x # l, r', g)"
      by auto
    then have "s' \<in> set (star_runs k (x # l) xs g)"
      using in_star_runs by blast
    with \<open>in_cls k x\<close> Cons show "s' \<in> set (run ci (PlusC k) (l, r, g))" by simp
  qed
qed

lemma first_match_SomeD:
  "first_match p l r = Some m \<Longrightarrow>
   \<exists>l' r' g. (l', r', g) \<in> set (run (ignorecase p) (tree p) (l, r, [])) \<and>
     m = \<lparr>m_start = length l, m_end = length l', groups = g\<rparr>"
  by (auto simp add: first_match_def split: list.splits)

lemma first_match_None_iff:
  "first_match p l r = None \<longleftrightarrow> run (ignorecase p) (tree p) (l, r, []) = []"
  by (auto simp add: first_match_def split: list.splits)

lemma search_from_SomeD:
  "search_from p l r = Some m \<Longrightarrow>
   \<exists>d r0. r = d @ r0 \<and> first_match p (rev d @ l) r0 = Some m"
proof (induction r arbitrary: l)
  case Nil
  then show ?case by simp
next
  case (Cons c cs)
  show ?case
  proof (cases "first_match p l (c # cs)")
    case (Some m')
    with Cons.prems have "first_match p (rev [] @ l) (c # cs) = Some m" by simp
    then show ?thesis by (intro exI [of _ "[]"] exI [of _ "c # cs"]) simp
  next
    case None
    with Cons.prems have "search_from p (c # l) cs = Some m" by simp
    then obtain d r0 where "cs = d @ r0" "first_match p (rev d @ c # l) r0 = Some m"
      using Cons.IH by blast
    then show ?thesis by (intro exI [of _ "c # d"] exI [of _ r0]) simp
  qed
qed

lemma search_from_None_iff:
  "search_from p l r = None \<longleftrightarrow> (\<forall>d r0. r = d @ r0 \<longrightarrow> first_match p (rev d @ l) r0 = None)"
proof (induction r arbitrary: l)
  case Nil
  show ?case by simp
next
  case (Cons c cs)
  show ?case
  proof
    assume none: "search_from p l (c # cs) = None"
    then have here: "first_match p l (c # cs) = None" and "search_from p (c # l) cs = None"
      by (auto split: option.splits)
    then have rest: "\<forall>d r0. cs = d @ r0 \<longrightarrow> first_match p (rev d @ c # l) r0 = None"
      using Cons.IH by blast
    show "\<forall>d r0. c # cs = d @ r0 \<longrightarrow> first_match p (rev d @ l) r0 = None"
    proof (intro allI impI)
      fix d r0 assume eq: "c # cs = d @ r0"
      show "first_match p (rev d @ l) r0 = None"
      proof (cases d)
        case Nil
        with eq here show ?thesis by simp
      next
        case (Cons y ys)
        with eq have "y = c" "cs = ys @ r0" by auto
        with rest Cons show ?thesis by simp
      qed
    qed
  next
    assume all: "\<forall>d r0. c # cs = d @ r0 \<longrightarrow> first_match p (rev d @ l) r0 = None"
    then have here: "first_match p l (c # cs) = None"
      by (auto dest: spec [of _ "[]"])
    have "\<forall>d r0. cs = d @ r0 \<longrightarrow> first_match p (rev d @ c # l) r0 = None"
    proof (intro allI impI)
      fix d r0 assume "cs = d @ r0"
      then have "c # cs = (c # d) @ r0" by simp
      with all have "first_match p (rev (c # d) @ l) r0 = None" by blast
      then show "first_match p (rev d @ c # l) r0 = None" by simp
    qed
    then have "search_from p (c # l) cs = None" using Cons.IH by blast
    with here show "search_from p l (c # cs) = None" by simp
  qed
qed

lemma in_run_lits:
  "s' \<in> set (run ci (lits w) (l, r, g)) \<longleftrightarrow>
   (\<exists>d r'. r = d @ r' \<and> list_all2 (chr_eq ci) w d \<and> s' = (rev d @ l, r', g))"
proof
  assume "s' \<in> set (run ci (lits w) (l, r, g))"
  then have "length w \<le> length r" "list_all2 (chr_eq ci) w (take (length w) r)"
    "s' = (rev (take (length w) r) @ l, drop (length w) r, g)"
    by (auto simp add: run_lits split: if_splits)
  then show "\<exists>d r'. r = d @ r' \<and> list_all2 (chr_eq ci) w d \<and> s' = (rev d @ l, r', g)"
    by (intro exI [of _ "take (length w) r"] exI [of _ "drop (length w) r"]) simp
next
  assume "\<exists>d r'. r = d @ r' \<and> list_all2 (chr_eq ci) w d \<and> s' = (rev d @ l, r', g)"
  then obtain d r' where d: "r = d @ r'" "list_all2 (chr_eq ci) w d" "s' = (rev d @ l, r', g)"
    by blast
  then have "length w = length d" by (simp add: list_all2_lengthD)
  with d show "s' \<in> set (run ci (lits w) (l, r, g))"
    by (simp add: run_lits)
qed

lemma in_run_Lit:
  "s' \<in> set (run ci (Lit p) (l, r, g)) \<longleftrightarrow>
   (\<exists>c r'. r = c # r' \<and> chr_eq ci p c \<and> s' = (c # l, r', g))"
  by (cases r) auto

lemma in_run_Set:
  "s' \<in> set (run ci (Set k) (l, r, g)) \<longleftrightarrow>
   (\<exists>c r'. r = c # r' \<and> in_cls k c \<and> s' = (c # l, r', g))"
  by (cases r) auto

lemma in_run_WordB:
  "s' \<in> set (run ci WordB (l, r, g)) \<longleftrightarrow> at_boundary l r \<and> s' = (l, r, g)"
  by auto

lemma in_run_Opt:
  "s' \<in> set (run ci (Opt a) s) \<longleftrightarrow> s' \<in> set (run ci a s) \<or> s' = s"
  by auto

lemma in_run_alts:
  "s' \<in> set (run ci (alts p ps) s) \<longleftrightarrow>
   s' \<in> set (run ci p s) \<or> (\<exists>q \<in> set ps. s' \<in> set (run ci q s))"
  unfolding alts_def by (induction ps arbitrary: p) auto

lemma rep_run_consumes:
  assumes f: "\<And>l r g s'. s' \<in> set (f (l, r, g)) \<Longrightarrow> \<exists>d r' g'. r = d @ r' \<and> s' = (rev d @ l, r', g' @ g)"
  shows "s' \<in> set (rep_run n f (l, r, g)) \<Longrightarrow> \<exists>d r' g'. r = d @ r' \<and> s' = (rev d @ l, r', g' @ g)"
proof (induction n arbitrary: l r g)
  case 0
  then have "r = [] @ r" "s' = (rev [] @ l, r, [] @ g)" by simp_all
  then show ?case by blast
next
  case (Suc n)
  then obtain s1 where s1: "s1 \<in> set (f (l, r, g))" and s': "s' \<in> set (rep_run n f s1)"
    by auto
  from f [OF s1] obtain d1 r1 g1 where 1: "r = d1 @ r1" "s1 = (rev d1 @ l, r1, g1 @ g)"
    by blast
  from Suc.IH [of "rev d1 @ l" r1 "g1 @ g"] s' 1
  obtain d2 r2 g2 where 2: "r1 = d2 @ r2" "s' = (rev d2 @ rev d1 @ l, r2, g2 @ g1 @ g)"
    by blast
  with 1 show ?case
    by (intro exI [of _ "d1 @ d2"] exI [of _ r2] exI [of _ "g2 @ g1"]) simp
qed

lemma run_consumes:
  "s' \<in> set (run ci p (l, r, g)) \<Longrightarrow> \<exists>d r' g'. r = d @ r' \<and> s' = (rev d @ l, r', g' @ g)"
proof (induction p arbitrary: l r g s')
  case Eps
  then have "r = [] @ r" "s' = (rev [] @ l, r, [] @ g)" by simp_all
  then show ?case by blast
next
  case (Lit x)
  then obtain c r' where "r = [c] @ r'" "s' = (rev [c] @ l, r', [] @ g)"
    unfolding in_run_Lit by auto
  then show ?case by blast
next
  case (Set x)
  then obtain c r' where "r = [c] @ r'" "s' = (rev [c] @ l, r', [] @ g)"
    unfolding in_run_Set by auto
  then show ?case by blast
next
  case (StarC x)
  then obtain d r' where "r = d @ r'" "s' = (rev d @ l, r', [] @ g)"
    unfolding in_run_StarC by auto
  then show ?case by blast
next
  case (PlusC x)
  then obtain d r' where "r = d @ r'" "s' = (rev d @ l, r', [] @ g)"
    unfolding in_run_PlusC by auto
  then show ?case by blast
next
  case (Seq a b)
  from Seq.prems obtain s1 where s1: "s1 \<in> set (run ci a (l, r, g))" and s': "s' \<in> set (run ci b s1)"
    by auto
  from Seq.IH(1) [OF s1] obtain d1 r1 g1 where 1: "r = d1 @ r1" "s1 = (rev d1 @ l, r1, g1 @ g)"
    by blast
  from Seq.IH(2) [of s' "rev d1 @ l" r1 "g1 @ g"] s' 1
  obtain d2 r2 g2 where 2: "r1 = d2 @ r2" "s' = (rev d2 @ rev d1 @ l, r2, g2 @ g1 @ g)"
    by blast
  with 1 show ?case
    by (intro exI [of _ "d1 @ d2"] exI [of _ r2] exI [of _ "g2 @ g1"]) simp
next
  case (Alt a b)
  from Alt.prems consider "s' \<in> set (run ci a (l, r, g))" | "s' \<in> set (run ci b (l, r, g))"
    by auto
  then show ?case
  proof cases
    case 1
    then show ?thesis by (rule Alt.IH(1))
  next
    case 2
    then show ?thesis by (rule Alt.IH(2))
  qed
next
  case (Opt a)
  from Opt.prems consider "s' \<in> set (run ci a (l, r, g))" | "s' = (l, r, g)"
    by auto
  then show ?case
  proof cases
    case 1
    then show ?thesis by (rule Opt.IH)
  next
    case 2
    then have "r = [] @ r" "s' = (rev [] @ l, r, [] @ g)" by simp_all
    then show ?thesis by blast
  qed
next
  case (Rep n a)
  from Rep.prems have "s' \<in> set (rep_run n (run ci a) (l, r, g))" by simp
  then show ?case
    using Rep.IH by (rule rep_run_consumes [rotated]) blast
next
  case WordB
  then have "r = [] @ r" "s' = (rev [] @ l, r, [] @ g)" by (simp_all split: if_splits)
  then show ?case by blast
next
  case (Group n a)
  from Group.prems obtain s1 where s1: "s1 \<in> set (run ci a (l, r, g))" and s': "s' = capture n l s1"
    by auto
  from Group.IH [OF s1] obtain d r' g' where "r = d @ r'" "s1 = (rev d @ l, r', g' @ g)"
    by blast
  with s' show ?case
    by (intro exI [of _ d] exI [of _ r'] exI [of _ "(n, d) # g'"]) (simp add: capture_def)
qed

lemma in_run_Group:
  "s' \<in> set (run ci (Group n a) (l, r, g)) \<longleftrightarrow>
   (\<exists>d r' g'. (rev d @ l, r', g') \<in> set (run ci a (l, r, g)) \<and> r = d @ r' \<and>
      s' = (rev d @ l, r', (n, d) # g'))"
proof
  assume "s' \<in> set (run ci (Group n a) (l, r, g))"
  then obtain s1 where s1: "s1 \<in> set (run ci a (l, r, g))" and s': "s' = capture n l s1"
    by auto
  from run_consumes [OF s1] obtain d r' g' where "r = d @ r'" "s1 = (rev d @ l, r', g' @ g)"
    by blast
  with s1 s' show "\<exists>d r' g'. (rev d @ l, r', g') \<in> set (run ci a (l, r, g)) \<and> r = d @ r' \<and>
      s' = (rev d @ l, r', (n, d) # g')"
    by (intro exI [of _ d] exI [of _ r'] exI [of _ "g' @ g"]) (simp add: capture_def)
next
  assume "\<exists>d r' g'. (rev d @ l, r', g') \<in> set (run ci a (l, r, g)) \<and> r = d @ r' \<and>
      s' = (rev d @ l, r', (n, d) # g')"
  then obtain d r' g' where "(rev d @ l, r', g') \<in> set (run ci a (l, r, g))"
    "s' = capture n l (rev d @ l, r', g')"
    by (auto simp add: capture_def)
  then show "s' \<in> set (run ci (Group n a) (l, r, g))"
    by (simp add: image_iff) blast
qed

lemma ci_match_lower: "list_all2 (chr_eq True) w d \<Longrightarrow> lower d = lower w"
  by (induction w d rule: list_all2_induct) (simp_all add: lower_def chr_eq_def)

lemma size_labels_lower:
  "lower ''0.5g'' = ''0.5g''" "lower ''1g'' = ''1g''" "lower ''2g'' = ''2g''"
  "lower ''3.5g'' = ''3.5g''" "lower ''7g'' = ''7g''" "lower ''10g'' = ''10g''"
  "lower ''14g'' = ''14g''" "lower ''28g'' = ''28g''"
  by (simp_all add: lower_def lower_chr_def upper_letters_def lower_letters_def)

lemma size_run:
  assumes "s' \<in> set (run True (tree SIZE_RE) (l, r, []))"
  shows "\<exists>l' r' d. s' = (l', r', [(1, d)]) \<and>
     lower d \<in> set [''0.5g'', ''1g'', ''2g'', ''3.5g'', ''7g'', ''10g'', ''14g'', ''28g'']"
proof -
  from assms obtain d r' g' where
    body: "(rev d @ l, r', g') \<in> set (run True
        (alts (lits ''0.5g'') [lits ''1g'', lits ''2g'', lits ''3.5g'', lits ''7g'',
           lits ''10g'', lits ''14g'', lits ''28g'']) (l, r, []))"
    and s': "s' = (rev d @ l, r', (1, d) # g')"
    unfolding SIZE_RE_def pattern.select_convs in_run_seqs_Cons run_seqs_Nil
    by (auto simp del: run.simps simp add: in_run_WordB in_run_Group)
  from body have "g' = [] \<and>
      lower d \<in> set [''0.5g'', ''1g'', ''2g'', ''3.5g'', ''7g'', ''10g'', ''14g'', ''28g'']"
    by (auto simp del: run.simps dest!: ci_match_lower
        simp add: in_run_alts in_run_lits size_labels_lower)
  with s' show ?thesis by simp
qed

section \<open>Size extraction and the grams lookup\<close>

lemma search_SomeD:
  "search p text = Some m \<Longrightarrow>
   \<exists>d r0 l' r'. text = d @ r0 \<and>
     (l', r', groups m) \<in> set (run (ignorecase p) (tree p) (rev d, r0, [])) \<and>
     m_start m = length d \<and> m_end m = length l'"
proof -
  assume "search p text = Some m"
  then obtain d r0 where "text = d @ r0" "first_match p (rev d @ []) r0 = Some m"
    unfolding search_def by (blast dest: search_from_SomeD)
  moreover from this obtain l' r' g where
    "(l', r', g) \<in> set (run (ignorecase p) (tree p) (rev d, r0, []))"
    "m = \<lparr>m_start = length (rev d), m_end = length l', groups = g\<rparr>"
    by (auto dest: first_match_SomeD)
  ultimately show ?thesis by auto
qed

lemma size_group:
  assumes "search SIZE_RE text = Some m"
  shows "\<exists>d. group m 1 = Some d \<and>
     lower d \<in> set [''0.5g'', ''1g'', ''2g'', ''3.5g'', ''7g'', ''10g'', ''14g'', ''28g'']"
proof -
  from search_SomeD [OF assms] obtain d r0 l' r' where
    "(l', r', groups m) \<in> set (run (ignorecase SIZE_RE) (tree SIZE_RE) (rev d, r0, []))"
    by blast
  then have "(l', r', groups m) \<in> set (run True (tree SIZE_RE) (rev d, r0, []))"
    by (simp add: SIZE_RE_def)
  from size_run [OF this] show ?thesis
    by (auto simp add: group_def)
qed

lemma extract_size_from_text_total: "\<exists>x. extract_size_from_text text = Inr x"
  by (auto simp add: extract_size_from_text_def split: option.splits dest: size_group)

lemma extract_size_from_text_label:
  assumes "extract_size_from_text text = Inr (Some s)"
  shows "s \<in> set [''0.5g'', ''1g'', ''2g'', ''3.5g'', ''7g'', ''10g'', ''14g'', ''28g'']"
proof -
  from assms obtain m d where "search SIZE_RE text = Some m" "group m 1 = Some d" "s = lower d"
    by (auto simp add: extract_size_from_text_def split: if_splits option.splits)
  with size_group [of "text" m] show ?thesis by auto
qed

lemma label_facts:
  assumes "s \<in> set [''0.5g'', ''1g'', ''2g'', ''3.5g'', ''7g'', ''10g'', ''14g'', ''28g'']"
  shows "lower s = s" and "s \<in> set (map fst SIZE_MAP)"
    and "\<exists>g. grams_from_size (Some s) = Some g \<and> 0 < g"
proof -
  show "lower s = s" "s \<in> set (map fst SIZE_MAP)"
    using assms by (auto simp add: size_labels_lower SIZE_MAP_def)
  have "grams_from_size (Some s) = Some (the (grams_from_size (Some s))) \<and>
      0 < the (grams_from_size (Some s))"
    using assms by (auto simp add: size_labels_lower SIZE_MAP_def)
  then show "\<exists>g. grams_from_size (Some s) = Some g \<and> 0 < g"
    by blast
qed

lemma calculate_price_per_g_keeps:
  "grams (calculate_price_per_g p) = grams p" "size_raw (calculate_price_per_g p) = size_raw p"
  by (simp_all add: calculate_price_per_g_def split: option.splits)

lemma assembled_size_grams:
  assumes "extract_product_data_from_card w c category_config store_name context base = Some p"
  shows "\<exists>text. inner_text c = Inr text \<and> extract_size_from_text text = Inr (size_raw p) \<and>
     grams p = grams_from_size (size_raw p)"
  using assms
  by (auto simp add: extract_product_data_from_card_def ok_def Let_def calculate_price_per_g_keeps
      split: option.splits sum.splits if_splits)

text \<open>
  C10. \<open>extract_size_from_text\<close> never raises. A size string it returns is in lower
  case, is one of the eight keys of \<open>SIZE_MAP\<close>, and \<open>grams_from_size\<close> maps it to a
  positive weight. So every product that \<open>extract_product_data_from_card\<close> assembles
  has grams exactly when it has a raw size.
\<close>

theorem size_and_grams_consistent:
  "(\<exists>x. extract_size_from_text text = Inr x) \<and>
   (extract_size_from_text text = Inr (Some s) \<longrightarrow>
      lower s = s \<and> s \<in> set (map fst SIZE_MAP) \<and>
      (\<exists>g. grams_from_size (Some s) = Some g \<and> 0 < g)) \<and>
   (extract_product_data_from_card w c category_config store_name context base = Some p \<longrightarrow>
      (grams p \<noteq> None \<longleftrightarrow> size_raw p \<noteq> None))"
proof (intro conjI impI)
  show "\<exists>x. extract_size_from_text text = Inr x" by (rule extract_size_from_text_total)
next
  assume "extract_size_from_text text = Inr (Some s)"
  then have s: "s \<in> set [''0.5g'', ''1g'', ''2g'', ''3.5g'', ''7g'', ''10g'', ''14g'', ''28g'']"
    by (rule extract_size_from_text_label)
  show "lower s = s" using s by (rule label_facts)
  show "s \<in> set (map fst SIZE_MAP)" using s by (rule label_facts)
  show "\<exists>g. grams_from_size (Some s) = Some g \<and> 0 < g" using s by (rule label_facts)
next
  assume "extract_product_data_from_card w c category_config store_name context base = Some p"
  from assembled_size_grams [OF this] obtain t where
    t: "extract_size_from_text t = Inr (size_raw p)" and g: "grams p = grams_from_size (size_raw p)"
    by blast
  show "grams p \<noteq> None \<longleftrightarrow> size_raw p \<noteq> None"
  proof (cases "size_raw p")
    case None
    with g show ?thesis by simp
  next
    case (Some s)
    with t have "s \<in> set [''0.5g'', ''1g'', ''2g'', ''3.5g'', ''7g'', ''10g'', ''14g'', ''28g'']"
      by (auto dest: extract_size_from_text_label)
    from label_facts(3) [OF this] g Some show ?thesis by auto
  qed
qed

text \<open>
  \<open>1G\<close> in a text is returned as \<open>1g\<close>, which weighs 1 gram; the Blue Dream card is
  assembled with size \<open>3.5g\<close> and 3.5 grams.
\<close>

theorem size_and_grams_consistent_witness:
  "extract_size_from_text ''Pre-Roll 1G Available'' = Inr (Some ''1g'') \<and>
   lower ''1g'' = ''1g'' \<and> grams_from_size (Some ''1g'') = Some 1 \<and>
   map_option (\<lambda>p. (size_raw p, grams p))
     (extract_product_data_from_card demo_world
        (text_card ''Blue Dream'' ''/product/blue-dream-3-5g''
           ''Blue Dream $25.99 3.5g THC: 18.5% Hybrid'')
        whole_flower ''Miami Beach, FL'' (Some no_pdp) ''https://www.trulieve.com'')
     = Some (Some ''3.5g'', Some (7 / 2))"
proof -
  have size: "extract_size_from_text ''Pre-Roll 1G Available'' = Inr (Some ''1g'')"
    by code_simp
  have card: "map_option (\<lambda>p. (size_raw p, grams p))
     (extract_product_data_from_card demo_world
        (text_card ''Blue Dream'' ''/product/blue-dream-3-5g''
           ''Blue Dream $25.99 3.5g THC: 18.5% Hybrid'')
        whole_flower ''Miami Beach, FL'' (Some no_pdp) ''https://www.trulieve.com'')
     = Some (Some ''3.5g'', Some (7 / 2))"
    by code_simp
  then obtain p where p: "extract_product_data_from_card demo_world
        (text_card ''Blue Dream'' ''/product/blue-dream-3-5g''
           ''Blue Dream $25.99 3.5g THC: 18.5% Hybrid'')
        whole_flower ''Miami Beach, FL'' (Some no_pdp) ''https://www.trulieve.com'' = Some p"
    by auto
  from size_and_grams_consistent [of "''Pre-Roll 1G Available''" "''1g''" demo_world
      "text_card ''Blue Dream'' ''/product/blue-dream-3-5g''
           ''Blue Dream $25.99 3.5g THC: 18.5% Hybrid''"
      whole_flower "''Miami Beach, FL''" "Some no_pdp" "''https://www.trulieve.com''" p] size p
  have "lower ''1g'' = ''1g''" "\<exists>g. grams_from_size (Some ''1g'') = Some g \<and> 0 < g"
    "grams p \<noteq> None \<longleftrightarrow> size_raw p \<noteq> None"
    by blast+
  moreover have "grams_from_size (Some ''1g'') = Some 1" by code_simp
  ultimately show ?thesis using size card by simp
qed

section \<open>Numbers captured by the patterns\<close>

lemma not_digit_dot: "\<not> is_digit CHR ''.''"
  by (simp add: is_digit_def)

lemma chr_eq_symbol:
  "chr_eq ci CHR ''.'' c \<longleftrightarrow> c = CHR ''.''"
  "chr_eq ci CHR ''%'' c \<longleftrightarrow> c = CHR ''%''"
  "chr_eq ci CHR ''$'' c \<longleftrightarrow> c = CHR ''$''"
  by (auto simp add: chr_eq_def lower_chr_def upper_letters_def lower_letters_def)

lemma py_float_digits:
  assumes "d \<noteq> []" "\<forall>c \<in> set d. is_digit c"
  shows "\<exists>v. py_float d = Inr v"
proof -
  have tw: "takeWhile is_digit d = d" and dw: "dropWhile is_digit d = []"
    using assms by (simp_all add: takeWhile_eq_all_conv)
  show ?thesis
    using assms(1) by (simp add: py_float_def Let_def tw dw)
qed

lemma py_float_decimal:
  assumes "d1 \<noteq> []" "\<forall>c \<in> set d1. is_digit c" "d2 \<noteq> []" "\<forall>c \<in> set d2. is_digit c"
  shows "\<exists>v. py_float (d1 @ CHR ''.'' # d2) = Inr v"
proof -
  have "takeWhile is_digit (d1 @ CHR ''.'' # d2) = d1"
    using assms(2) not_digit_dot by (simp add: takeWhile_append2)
  moreover have "dropWhile is_digit (d1 @ CHR ''.'' # d2) = CHR ''.'' # d2"
    using assms(2) not_digit_dot by (simp add: dropWhile_append2)
  moreover have "list_all is_digit d2"
    using assms(4) by (simp add: list_all_iff)
  ultimately show ?thesis
    using assms(1,3) by (simp add: py_float_def Let_def)
qed


lemma in_run_price_number:
  assumes "s' \<in> set (run ci (Seq (PlusC Digit) (Opt (Seq (Lit CHR ''.'') (Rep 2 (Set Digit))))) (l, r, g))"
  shows "\<exists>d r' v. r = d @ r' \<and> d \<noteq> [] \<and> s' = (rev d @ l, r', g) \<and> py_float d = Inr v"
proof -
  from assms obtain s1 where s1: "s1 \<in> set (run ci (PlusC Digit) (l, r, g))"
    and s': "s' \<in> set (run ci (Opt (Seq (Lit CHR ''.'') (Rep 2 (Set Digit)))) s1)"
    unfolding in_run_Seq by blast
  from s1 obtain d1 r1 where 1: "r = d1 @ r1" "d1 \<noteq> []" "\<forall>c \<in> set d1. is_digit c"
    "s1 = (rev d1 @ l, r1, g)"
    unfolding in_run_PlusC by auto
  from s' consider (frac) "s' \<in> set (run ci (Seq (Lit CHR ''.'') (Rep 2 (Set Digit))) s1)" | (int) "s' = s1"
    unfolding in_run_Opt by blast
  then show ?thesis
  proof cases
    case int
    with 1 py_float_digits [of d1] show ?thesis by auto
  next
    case frac
    then obtain s2 where s2: "s2 \<in> set (run ci (Lit CHR ''.'') (rev d1 @ l, r1, g))"
      and s3: "s' \<in> set (run ci (Rep 2 (Set Digit)) s2)"
      unfolding in_run_Seq 1 by blast
    from s2 obtain r2 where 2: "r1 = CHR ''.'' # r2" "s2 = (CHR ''.'' # rev d1 @ l, r2, g)"
      unfolding in_run_Lit chr_eq_symbol by auto
    from s3 obtain a b r3 where 3: "r2 = a # b # r3" "is_digit a" "is_digit b"
      "s' = (b # a # CHR ''.'' # rev d1 @ l, r3, g)"
      unfolding 2 by (auto simp add: numeral_2_eq_2 split: list.splits if_splits)
    from py_float_decimal [OF 1(2,3), of "[a, b]"] 3 obtain v where
      "py_float (d1 @ CHR ''.'' # [a, b]) = Inr v"
      by auto
    with 1 2 3 show ?thesis
      by (intro exI [of _ "d1 @ CHR ''.'' # [a, b]"] exI [of _ r3] exI [of _ v]) simp
  qed
qed

lemma float_group_lookup:
  "py_float d = Inr v \<Longrightarrow> groups m = (1, d) # g \<Longrightarrow> float_group m 1 = Inr v"
  "py_float d = Inr v \<Longrightarrow> groups m = (2, d2) # (1, d) # g \<Longrightarrow> float_group m 1 = Inr v"
  by (simp_all add: float_group_def group_def)

lemma price_run:
  assumes "s' \<in> set (run False (tree PRICE_RE) (l, r, []))"
  shows "\<exists>l' r' d v. s' = (l', r', [(1, d)]) \<and> py_float d = Inr v"
proof -
  from assms obtain s1 s2 where s1: "s1 \<in> set (run False (Lit CHR ''$'') (l, r, []))"
    and s2: "s2 \<in> set (run False (StarC Space) s1)"
    and s3: "s' \<in> set (run False
        (Group 1 (Seq (PlusC Digit) (Opt (Seq (Lit CHR ''.'') (Rep 2 (Set Digit)))))) s2)"
    unfolding PRICE_RE_def pattern.select_convs in_run_seqs_Cons run_seqs_Nil
    by (auto simp del: run.simps)
  from s1 obtain l1 r1 where 1: "s1 = (l1, r1, [])"
    unfolding in_run_Lit by auto
  from s2 obtain l2 r2 where 2: "s2 = (l2, r2, [])"
    unfolding 1 in_run_StarC by auto
  from s3 obtain d r' g' where 3: "s' = (rev d @ l2, r', (1, d) # g')"
    and body: "(rev d @ l2, r', g') \<in> set (run False
        (Seq (PlusC Digit) (Opt (Seq (Lit CHR ''.'') (Rep 2 (Set Digit))))) (l2, r2, []))"
    unfolding 2 in_run_Group by blast
  from in_run_price_number [OF body] obtain d' v where "rev d @ l2 = rev d' @ l2" "g' = []"
    "py_float d' = Inr v"
    by auto
  then have "d' = d" by simp
  with 3 \<open>g' = []\<close> \<open>py_float d' = Inr v\<close> show ?thesis by auto
qed

section \<open>Price extraction\<close>

lemma finditer_from_matches:
  "m \<in> set (finditer_from p l r) \<Longrightarrow> \<exists>l0 r0. first_match p l0 r0 = Some m"
proof (induction p l r rule: finditer_from.induct)
  case (1 p l r)
  show ?case
  proof (cases "search_from p l r")
    case None
    have "finditer_from p l r = []"
      by (subst finditer_from.simps) (simp only: None option.case)
    with "1.prems" show ?thesis by (simp del: finditer_from.simps)
  next
    case (Some m0)
    have here: "\<exists>l0 r0. first_match p l0 r0 = Some m0"
      using search_from_SomeD [OF Some] by blast
    let ?k = "m_end m0 - length l"
    have unfold: "finditer_from p l r =
        (if 0 < ?k \<and> ?k \<le> length r
         then m0 # finditer_from p (rev (take ?k r) @ l) (drop ?k r)
         else case r of [] \<Rightarrow> [m0] | c # cs \<Rightarrow> m0 # finditer_from p (c # l) cs)"
      by (subst finditer_from.simps) (simp only: Some option.case Let_def)
    show ?thesis
    proof (cases "0 < ?k \<and> ?k \<le> length r")
      case True
      have "finditer_from p l r = m0 # finditer_from p (rev (take ?k r) @ l) (drop ?k r)"
        using True by (simp only: unfold if_True simp_thms)
      with "1.prems" have "m = m0 \<or> m \<in> set (finditer_from p (rev (take ?k r) @ l) (drop ?k r))"
        by (simp del: finditer_from.simps)
      then show ?thesis
        using here "1.IH"(1) [OF Some refl True] by blast
    next
      case False
      have other: "finditer_from p l r =
          (case r of [] \<Rightarrow> [m0] | c # cs \<Rightarrow> m0 # finditer_from p (c # l) cs)"
        using False by (simp only: unfold if_False simp_thms)
      show ?thesis
      proof (cases r)
        case Nil
        have "finditer_from p l r = [m0]"
          unfolding other by (simp only: Nil list.case)
        with "1.prems" have "m = m0" by (simp del: finditer_from.simps)
        with here show ?thesis by simp
      next
        case (Cons c cs)
        have "finditer_from p l r = m0 # finditer_from p (c # l) cs"
          unfolding other by (simp only: Cons list.case)
        with "1.prems" have "m = m0 \<or> m \<in> set (finditer_from p (c # l) cs)"
          by (simp del: finditer_from.simps)
        then show ?thesis
          using here "1.IH"(2) [OF Some refl False Cons] by blast
      qed
    qed
  qed
qed

lemma price_match_value:
  assumes "m \<in> set (finditer PRICE_RE blob)"
  shows "\<exists>v. float_group m 1 = Inr v"
proof -
  from assms obtain l0 r0 where "first_match PRICE_RE l0 r0 = Some m"
    unfolding finditer_def by (blast dest: finditer_from_matches)
  then obtain l' r' g where "(l', r', g) \<in> set (run (ignorecase PRICE_RE) (tree PRICE_RE) (l0, r0, []))"
    "groups m = g"
    by (auto dest: first_match_SomeD)
  then have "(l', r', groups m) \<in> set (run False (tree PRICE_RE) (l0, r0, []))"
    by (simp add: PRICE_RE_def)
  from price_run [OF this] show ?thesis
    by (auto simp add: float_group_def group_def)
qed

lemma collect_prices_all:
  assumes "\<forall>m \<in> set ms. \<exists>v. float_group m 1 = Inr v"
  shows "\<exists>vals. map (\<lambda>m. float_group m 1) ms = map Inr vals \<and> collect_prices ms = Inr vals"
  using assms
proof (induction ms)
  case Nil
  show ?case by simp
next
  case (Cons m ms)
  then obtain v vals where "float_group m 1 = Inr v"
    "map (\<lambda>m. float_group m 1) ms = map Inr vals" "collect_prices ms = Inr vals"
    by auto
  then show ?case by (intro exI [of _ "v # vals"]) simp
qed

lemma py_min_Min: "py_min vals = (if vals = [] then None else Some (Min (set vals)))"
  by (cases vals) (simp_all add: Min.set_eq_fold [symmetric])

lemma map_Inr_eq: "map Inr xs = map Inr ys \<longleftrightarrow> xs = ys"
  by (simp add: inj_map_eq_map)

text \<open>
  C6. For every text blob, each match of \<open>PRICE_RE\<close> has a numeric value, and the price
  extracted from the blob is the minimum of the values of all matches, or absent when
  there is no match. \<open>extract_price_from_card\<close> returns that price for the blob it
  builds: the texts of its first four price elements that contain a dollar sign, joined
  by spaces, or the card's whole text when there is none.
\<close>

theorem price_is_minimum_of_matches:
  "(\<exists>vals. map (\<lambda>m. float_group m 1) (finditer PRICE_RE blob) = map Inr vals \<and>
      price_from_blob blob = Inr (if vals = [] then None else Some (Min (set vals)))) \<and>
   (price_elems c = Inr elems \<and> dollar_texts (take 4 elems) \<noteq> [] \<longrightarrow>
      Inr (extract_price_from_card c) =
        price_from_blob (py_join '' '' (dollar_texts (take 4 elems)))) \<and>
   (price_elems c = Inr elems \<and> dollar_texts (take 4 elems) = [] \<and> inner_text c = Inr card_text \<longrightarrow>
      Inr (extract_price_from_card c) = price_from_blob card_text)"
proof -
  have blob: "\<exists>vals. map (\<lambda>m. float_group m 1) (finditer PRICE_RE b) = map Inr vals \<and>
      price_from_blob b = Inr (if vals = [] then None else Some (Min (set vals)))" for b
  proof -
    from collect_prices_all [of "finditer PRICE_RE b"] price_match_value [of _ b]
    obtain vals where "map (\<lambda>m. float_group m 1) (finditer PRICE_RE b) = map Inr vals"
      "collect_prices (finditer PRICE_RE b) = Inr vals"
      by blast
    then show ?thesis
      by (intro exI [of _ vals]) (simp add: price_from_blob_def py_min_Min)
  qed
  then have total: "\<exists>x. price_from_blob b = Inr x" for b by blast
  have empty: "py_join '' '' [] = []" by simp
  have one: "py_join '' '' [t] = t" for t by simp
  have elems: "Inr (extract_price_from_card c) =
      price_from_blob (py_join '' '' (dollar_texts (take 4 elems)))"
    if "price_elems c = Inr elems" "dollar_texts (take 4 elems) \<noteq> []"
    using that total [of "py_join '' '' (dollar_texts (take 4 elems))"]
    by (auto simp add: extract_price_from_card_def Let_def)
  have inner: "Inr (extract_price_from_card c) = price_from_blob card_text"
    if "price_elems c = Inr elems" "dollar_texts (take 4 elems) = []" "inner_text c = Inr card_text"
    using that total [of card_text] total [of "[]"]
    by (cases "card_text = []") (auto simp add: extract_price_from_card_def Let_def)
  show ?thesis
    using blob [of blob] elems inner by blast
qed

text \<open>
  \<open>was $30.00 now $25.50\<close> yields 25.50, a text without a dollar amount yields no
  price, and the two cards (price elements, or only a visible text) yield 25.50.
\<close>

theorem price_is_minimum_of_matches_witness:
  "price_from_blob ''was $30.00 now $25.50'' = Inr (Some (51 / 2)) \<and>
   price_from_blob ''no price here'' = Inr None \<and>
   extract_price_from_card sale_card = Some (51 / 2) \<and>
   extract_price_from_card (text_card ''Blue Dream'' ''/product/blue-dream-3-5g''
     ''Blue Dream was $30.00 now $25.50'') = Some (51 / 2)"
proof -
  let ?elems = "[Inr (Some ''was $30.00''), Inr (Some ''Add to cart''), Inr (Some ''now $25.50'')]
    :: (error + string option) list"
  let ?plain = "text_card ''Blue Dream'' ''/product/blue-dream-3-5g''
    ''Blue Dream was $30.00 now $25.50''"
  have matched: "map (\<lambda>m. float_group m 1) (finditer PRICE_RE ''was $30.00 now $25.50'')
      = map Inr [30, 51 / 2]"
    by code_simp
  have unmatched: "map (\<lambda>m. float_group m 1) (finditer PRICE_RE ''no price here'') = map Inr []"
    by code_simp
  have matched_plain: "map (\<lambda>m. float_group m 1)
      (finditer PRICE_RE ''Blue Dream was $30.00 now $25.50'') = map Inr [30, 51 / 2]"
    by code_simp
  have elems: "price_elems sale_card = Inr ?elems \<and> dollar_texts (take 4 ?elems) \<noteq> []"
    by (simp add: sale_card_def)
  have joined: "py_join '' '' (dollar_texts (take 4 ?elems)) = ''was $30.00 now $25.50''"
    by simp
  have plain: "price_elems ?plain = Inr [] \<and> dollar_texts (take 4 []) = [] \<and>
      inner_text ?plain = Inr ''Blue Dream was $30.00 now $25.50''"
    by (simp add: text_card_def)
  have least: "Min (set [30, 51 / 2 :: rat]) = 51 / 2" by simp
  from price_is_minimum_of_matches [of "''was $30.00 now $25.50''" sale_card ?elems]
  obtain vals where "map (\<lambda>m. float_group m 1) (finditer PRICE_RE ''was $30.00 now $25.50'')
      = map Inr vals"
    and price: "price_from_blob ''was $30.00 now $25.50''
      = Inr (if vals = [] then None else Some (Min (set vals)))"
    and card: "Inr (extract_price_from_card sale_card) =
      price_from_blob (py_join '' '' (dollar_texts (take 4 ?elems)))"
    using elems by blast
  then have "vals = [30, 51 / 2]"
    by (simp only: matched map_Inr_eq)
  with price least have a: "price_from_blob ''was $30.00 now $25.50'' = Inr (Some (51 / 2))"
    by simp
  with card have b: "extract_price_from_card sale_card = Some (51 / 2)"
    by (simp only: joined sum.inject)
  from price_is_minimum_of_matches [of "''no price here''"]
  obtain vals0 where "map (\<lambda>m. float_group m 1) (finditer PRICE_RE ''no price here'')
      = map Inr vals0"
    and price0: "price_from_blob ''no price here''
      = Inr (if vals0 = [] then None else Some (Min (set vals0)))"
    by blast
  then have "vals0 = []"
    by (simp only: unmatched map_Inr_eq)
  with price0 have c: "price_from_blob ''no price here'' = Inr None"
    by simp
  from price_is_minimum_of_matches [of "''Blue Dream was $30.00 now $25.50''" ?plain "[]"
      "''Blue Dream was $30.00 now $25.50''"]
  obtain vals1 where "map (\<lambda>m. float_group m 1)
      (finditer PRICE_RE ''Blue Dream was $30.00 now $25.50'') = map Inr vals1"
    and price1: "price_from_blob ''Blue Dream was $30.00 now $25.50''
      = Inr (if vals1 = [] then None else Some (Min (set vals1)))"
    and card1: "Inr (extract_price_from_card ?plain) =
      price_from_blob ''Blue Dream was $30.00 now $25.50''"
    using plain by blast
  then have "vals1 = [30, 51 / 2]"
    by (simp only: matched_plain map_Inr_eq)
  with price1 least card1 have d: "extract_price_from_card ?plain = Some (51 / 2)"
    by simp
  show ?thesis
    using a b c d by simp
qed

section \<open>Potency extraction\<close>












end
